theory Spec2Isabelle
  imports Main
begin

section \<open>Values shared by the two clients\<close>

text \<open>
  A JavaScript \<open>Error\<close> object, of which the callers only ever read the message
  (\<open>err.message\<close> in HomeScreen.tsx and in app.js).
\<close>

datatype js_error = JsError (message: string)

text \<open>
  The decimal text that a template literal \<open>${n}\<close> produces for an integer number.
\<close>

definition digit_char :: "nat \<Rightarrow> char" where
  "digit_char d = ''0123456789'' ! d"

function js_string_of_nat :: "nat \<Rightarrow> string" where
  "js_string_of_nat n =
     (if n < 10 then [digit_char n]
      else js_string_of_nat (n div 10) @ [digit_char (n mod 10)])"
  by pat_completeness auto
termination
  by (relation "measure id") auto

definition js_string_of_int :: "int \<Rightarrow> string" where
  "js_string_of_int i =
     (if i < 0 then CHR ''-'' # js_string_of_nat (nat (- i)) else js_string_of_nat (nat i))"

text \<open>
  The interfaces \<open>FishResult\<close> and \<open>PollResponse\<close> of api.ts. The status is kept a
  string: the type annotation of api.ts lists four values, but the value is whatever the
  JSON body carries, and app.js compares the same field with a fifth one. An optional
  field that is absent (or null) is \<open>None\<close>. (The field \<open>notes\<close> is written \<open>notes_field\<close>:
  the plain name is reserved.)
\<close>

record FishResult =
  species :: string
  hebrew_name :: string
  native :: bool
  population :: string
  avg_size_cm :: int
  min_size_cm :: int
  seasonal_ban :: "string option"
  notes_field :: string
  description :: string

record PollResponse =
  status :: string
  result :: "FishResult option"
  error :: "string option"

text \<open>
  What one \<open>fetch\<close> of the results endpoint gives: the promise rejects (network failure),
  or it resolves to a response with an HTTP status code, a body text, and the outcome of
  \<open>response.json()\<close> (which rejects when the body is not JSON).
\<close>

datatype http_response =
  HttpResponse (http_status: nat) (body_text: string) (body_json: "js_error + PollResponse")

datatype fetch_result = FetchRejected js_error | FetchResolved http_response

definition response_ok :: "http_response \<Rightarrow> bool" where
  "response_ok response = (200 \<le> http_status response \<and> http_status response \<le> 299)"

text \<open>
  A run of a poll loop: how its promise settles (\<open>Inr\<close> resolved, \<open>Inl\<close> rejected), the
  number of requests it sent, and the time it spent waiting between requests. Time is
  accounted as the sum of the timer intervals; the latency of a request is not modelled.
\<close>

record 'a poll_run =
  outcome :: "js_error + 'a"
  requests :: nat
  waited_ms :: int

datatype 'a iteration = Return 'a | Throw js_error | NextAttempt

section \<open>The mobile client: pollResults of api.ts\<close>

definition POLL_INTERVAL_MS :: int where
  "POLL_INTERVAL_MS = 3000"

text \<open>The body of the \<open>for\<close> loop up to the delay: lines 177 to 192 of api.ts.\<close>

definition pollResults_attempt :: "fetch_result \<Rightarrow> FishResult iteration" where
  "pollResults_attempt fetched =
     (case fetched of
        FetchRejected e \<Rightarrow> Throw e
      | FetchResolved response \<Rightarrow>
          if \<not> response_ok response then
            Throw (JsError (''Polling request failed ('' @
              js_string_of_nat (http_status response) @ ''): '' @ body_text response))
          else
            (case body_json response of
               Inl e \<Rightarrow> Throw e
             | Inr data \<Rightarrow>
                 if status data = ''completed'' \<and> result data \<noteq> None then
                   Return (the (result data))
                 else if status data = ''error'' then
                   Throw (JsError (case error data of
                                     Some detail \<Rightarrow> detail
                                   | None \<Rightarrow> ''Fish identification failed on the server.''))
                 else NextAttempt))"

text \<open>
  The message of the timeout rejection (lines 200 to 204 of api.ts). The code formats
  doubles; the integer arithmetic and the decimal digits written here are what it
  produces as long as the product \<open>maxAttempts * POLL_INTERVAL_MS\<close> is a double that
  holds an integer exactly, which \<open>exact_attempt_limit\<close> says. Up to that limit the
  loop counter \<open>attempt\<close> is exact as well.
\<close>

definition exact_attempt_limit :: "int \<Rightarrow> bool" where
  "exact_attempt_limit maxAttempts = (\<bar>maxAttempts * POLL_INTERVAL_MS\<bar> \<le> 2 ^ 53)"

definition pollResults_timeout_message :: "int \<Rightarrow> string" where
  "pollResults_timeout_message maxAttempts =
     ''Identification timed out after '' @ js_string_of_int maxAttempts @
     '' attempts (~'' @ js_string_of_int ((maxAttempts * POLL_INTERVAL_MS) div 1000) @
     ''s). Please try again.''"

text \<open>
  The \<open>for\<close> loop from \<open>attempt\<close> on, with the requests sent and the time waited so far.
  \<open>server k\<close> is what the \<open>k\<close>-th request for this image id meets. \<open>maxAttempts\<close> is
  an integer (the only call site passes none and gets the default 20).
\<close>

function pollResults_loop ::
  "(int \<Rightarrow> fetch_result) \<Rightarrow> int \<Rightarrow> int \<Rightarrow> nat \<Rightarrow> int \<Rightarrow> FishResult poll_run" where
  "pollResults_loop server maxAttempts attempt sent waited =
     (if attempt \<le> maxAttempts then
        (case pollResults_attempt (server attempt) of
           Return r \<Rightarrow> \<lparr>outcome = Inr r, requests = sent + 1, waited_ms = waited\<rparr>
         | Throw e \<Rightarrow> \<lparr>outcome = Inl e, requests = sent + 1, waited_ms = waited\<rparr>
         | NextAttempt \<Rightarrow>
             pollResults_loop server maxAttempts (attempt + 1) (sent + 1)
               (if attempt < maxAttempts then waited + POLL_INTERVAL_MS else waited))
      else
        \<lparr>outcome = Inl (JsError (pollResults_timeout_message maxAttempts)),
         requests = sent, waited_ms = waited\<rparr>)"
  by pat_completeness auto
termination
  by (relation "measure (\<lambda>(server, maxAttempts, attempt, sent, waited).
        nat (maxAttempts + 1 - attempt))") auto

definition pollResults :: "(int \<Rightarrow> fetch_result) \<Rightarrow> int \<Rightarrow> FishResult poll_run" where
  "pollResults server maxAttempts = pollResults_loop server maxAttempts 1 0 0"

definition maxAttempts_default :: int where
  "maxAttempts_default = 20"

text \<open>
  The time at which the promise of \<open>pollResults\<close> settles. The loop awaits each request
  before it goes on (line 177 of api.ts), so that time is the time its requests took
  plus the time it waited between them. \<open>latency k\<close> is the time in ms that the
  \<open>k\<close>-th request takes to settle.
\<close>

definition pollResults_elapsed_ms :: "(int \<Rightarrow> nat) \<Rightarrow> 'a poll_run \<Rightarrow> int" where
  "pollResults_elapsed_ms latency run =
     waited_ms run + (\<Sum>k = 1..int (requests run). int (latency k))"

section \<open>The web client: pollForResults of app.js\<close>

definition POLL_MAX_ATTEMPTS :: int where
  "POLL_MAX_ATTEMPTS = 40"

text \<open>
  The message of the timeout rejection (line 644 of app.js), a Hebrew sentence, as the
  bytes of its UTF-8 encoding.
\<close>

definition POLL_TIMEOUT_TEXT :: string where
  "POLL_TIMEOUT_TEXT =
     [
      CHR 0xD7, CHR 0x94, CHR 0xD7, CHR 0x96, CHR 0xD7, CHR 0x9E, CHR 0xD7, CHR 0x9F,
      CHR 0x20, CHR 0xD7, CHR 0x94, CHR 0xD7, CHR 0xA7, CHR 0xD7, CHR 0xA6, CHR 0xD7,
      CHR 0x95, CHR 0xD7, CHR 0x91, CHR 0x20, CHR 0xD7, CHR 0xA2, CHR 0xD7, CHR 0x91,
      CHR 0xD7, CHR 0xA8, CHR 0x2E, CHR 0x20, CHR 0xD7, CHR 0x94, CHR 0x2D, CHR 0x57,
      CHR 0x6F, CHR 0x72, CHR 0x6B, CHR 0x65, CHR 0x72, CHR 0x20, CHR 0xD7, CHR 0x9C,
      CHR 0xD7, CHR 0x90, CHR 0x20, CHR 0xD7, CHR 0x94, CHR 0xD7, CHR 0x92, CHR 0xD7,
      CHR 0x99, CHR 0xD7, CHR 0x91, CHR 0x2E, CHR 0x20, CHR 0xD7, CHR 0x91, CHR 0xD7,
      CHR 0x93, CHR 0xD7, CHR 0x95, CHR 0xD7, CHR 0xA7, CHR 0x20, CHR 0xD7, CHR 0xA9,
      CHR 0xD7, CHR 0x94, CHR 0x2D, CHR 0x45, CHR 0x43, CHR 0x32, CHR 0x20, CHR 0xD7,
      CHR 0xA4, CHR 0xD7, CHR 0x95, CHR 0xD7, CHR 0xA2, CHR 0xD7, CHR 0x9C, CHR 0x2E]"

text \<open>
  \<open>authFetch\<close>: \<open>token\<close> is what \<open>getIdToken()\<close> resolves to (null is \<open>None\<close>; an
  empty string is falsy too). Without a token no request is sent. The click on the
  sign-out button that precedes both throws is not part of the value.
\<close>

definition token_missing :: "string option \<Rightarrow> bool" where
  "token_missing token = (token = None \<or> token = Some [])"

definition authFetch :: "string option \<Rightarrow> fetch_result \<Rightarrow> js_error + http_response" where
  "authFetch token fetched =
     (if token_missing token then Inl (JsError ''Session expired. Please sign in again.'')
      else
        (case fetched of
           FetchRejected e \<Rightarrow> Inl e
         | FetchResolved res \<Rightarrow>
             if http_status res = 401 then
               Inl (JsError ''Session expired. Please sign in again.'')
             else Inr res))"

text \<open>
  One run of the interval callback after \<open>attempts++\<close>: lines 629 to 650 of app.js.
  \<open>Return data\<close> is \<open>displayResults(data); resolve()\<close>, \<open>Throw e\<close> is \<open>reject(e)\<close>; in
  both the timer is cleared. \<open>NextAttempt\<close> leaves the timer running.
\<close>

definition pollForResults_tick ::
  "int \<Rightarrow> string option \<Rightarrow> fetch_result \<Rightarrow> PollResponse iteration" where
  "pollForResults_tick attempts token fetched =
     (case authFetch token fetched of
        Inl e \<Rightarrow> Throw e
      | Inr res \<Rightarrow>
          if \<not> response_ok res then
            Throw (JsError (''Results API error (HTTP '' @
              js_string_of_nat (http_status res) @ '')''))
          else
            (case body_json res of
               Inl e \<Rightarrow> Throw e
             | Inr data \<Rightarrow>
                 if status data = ''ready'' then Return data
                 else if attempts \<ge> POLL_MAX_ATTEMPTS then Throw (JsError POLL_TIMEOUT_TEXT)
                 else NextAttempt))"

text \<open>
  The timer: every \<open>POLL_INTERVAL_MS\<close> (3000 in app.js as well) the callback runs.
  \<open>tokens k\<close> and \<open>server k\<close> are what the \<open>k\<close>-th run meets. The runs are taken one
  at a time, each finished before the next tick: \<open>setInterval\<close> does not wait for a
  run, so this is the program only when every reply arrives before the next tick. With
  slower replies the runs overlap and share \<open>attempts\<close>; nothing is stated here of
  that case.
\<close>

function pollForResults_interval ::
  "(int \<Rightarrow> string option) \<Rightarrow> (int \<Rightarrow> fetch_result) \<Rightarrow> int \<Rightarrow> nat \<Rightarrow> int \<Rightarrow>
     PollResponse poll_run" where
  "pollForResults_interval tokens server attempts sent waited =
     (case pollForResults_tick (attempts + 1) (tokens (attempts + 1)) (server (attempts + 1)) of
        Return data \<Rightarrow>
          \<lparr>outcome = Inr data,
           requests = (if token_missing (tokens (attempts + 1)) then sent else sent + 1),
           waited_ms = waited + POLL_INTERVAL_MS\<rparr>
      | Throw e \<Rightarrow>
          \<lparr>outcome = Inl e,
           requests = (if token_missing (tokens (attempts + 1)) then sent else sent + 1),
           waited_ms = waited + POLL_INTERVAL_MS\<rparr>
      | NextAttempt \<Rightarrow>
          pollForResults_interval tokens server (attempts + 1)
            (if token_missing (tokens (attempts + 1)) then sent else sent + 1)
            (waited + POLL_INTERVAL_MS))"
  by pat_completeness auto
termination
  by (relation "measure (\<lambda>(tokens, server, attempts, sent, waited).
        nat (POLL_MAX_ATTEMPTS - attempts))")
    (auto simp: pollForResults_tick_def split: sum.splits if_splits)

definition pollForResults ::
  "(int \<Rightarrow> string option) \<Rightarrow> (int \<Rightarrow> fetch_result) \<Rightarrow> PollResponse poll_run" where
  "pollForResults tokens server = pollForResults_interval tokens server 0 0 0"

section \<open>The mobile screen: handleIdentify of HomeScreen.tsx\<close>

datatype UploadState = Idle | Uploading | Processing | Done | Error

record UploadUrlResponse =
  image_id :: string
  upload_url :: string
  upload_fields :: "(string \<times> string) list"

record HomeScreen =
  imageUri :: "string option"
  uploadState :: UploadState
  errorMessage :: "string option"
  navigatedTo :: "FishResult option"

text \<open>
  \<open>handleIdentify\<close>, given how \<open>getUploadUrl\<close> and \<open>uploadToS3\<close> settle and what the
  backend answers to the polls for an image id. It returns the values passed to
  \<open>setUploadState\<close>, in order, and the screen's state at the end. \<open>pollResults\<close> is called
  with its default \<open>maxAttempts\<close>. Every rejection is caught by the one \<open>catch\<close> block,
  which shows the error's message (all that is thrown here is an \<open>Error\<close>).
\<close>

definition handleIdentify ::
  "(js_error + UploadUrlResponse) \<Rightarrow> (js_error + unit) \<Rightarrow> (string \<Rightarrow> int \<Rightarrow> fetch_result) \<Rightarrow>
     HomeScreen \<Rightarrow> UploadState list \<times> HomeScreen" where
  "handleIdentify gotUrl uploaded backend screen =
     (if imageUri screen = None \<or> imageUri screen = Some [] then ([], screen)
      else
        (case gotUrl of
           Inl e \<Rightarrow>
             ([Uploading, Error],
              screen\<lparr>errorMessage := Some (message e), uploadState := Error\<rparr>)
         | Inr grant \<Rightarrow>
             (case uploaded of
                Inl e \<Rightarrow>
                  ([Uploading, Error],
                   screen\<lparr>errorMessage := Some (message e), uploadState := Error\<rparr>)
              | Inr _ \<Rightarrow>
                  (case outcome (pollResults (backend (image_id grant)) maxAttempts_default) of
                     Inl e \<Rightarrow>
                       ([Uploading, Processing, Error],
                        screen\<lparr>errorMessage := Some (message e), uploadState := Error\<rparr>)
                   | Inr r \<Rightarrow>
                       ([Uploading, Processing, Done],
                        screen\<lparr>errorMessage := None, uploadState := Done,
                          navigatedTo := Some r\<rparr>)))))"

section \<open>The auth facade: getCurrentUser of auth.ts\<close>

record AuthUser =
  userId :: string
  username :: string

record CurrentUser =
  email :: string

text \<open>
  The SDK call, as the comment in auth.ts describes it (the SDK itself is an external
  package): it returns the signed-in user, and throws when there is none. \<open>thrown\<close> is
  the exception it throws then.
\<close>

definition amplifyGetCurrentUser :: "js_error \<Rightarrow> AuthUser option \<Rightarrow> js_error + AuthUser" where
  "amplifyGetCurrentUser thrown session =
     (case session of None \<Rightarrow> Inl thrown | Some user \<Rightarrow> Inr user)"

text \<open>
  \<open>getCurrentUser\<close>, given how the SDK call settles. \<open>Inl\<close> would be an exception that
  leaves the function; \<open>Inr None\<close> is the value null.
\<close>

definition getCurrentUser :: "(js_error + AuthUser) \<Rightarrow> js_error + CurrentUser option" where
  "getCurrentUser sdk =
     (case sdk of
        Inr user \<Rightarrow> Inr (Some \<lparr>email = username user\<rparr>)
      | Inl _ \<Rightarrow> Inr None)"

section \<open>The result store\<close>

text \<open>
  Modelled from the spec: the result store, its \<open>ResultRecord\<close>, \<open>GetStatus\<close> and
  \<open>PutResult\<close>. The sources only declare the table (dynamodb.tf: one table with the
  single hash key \<open>ImageId\<close> and no range key, so one item per key); the worker and
  the API that write and read it are not among them. \<open>PutResult\<close> is the spec's
  full-record overwrite with no condition; an absent record reads as \<open>NotFound\<close>, which
  stands for the implicit status pending.
\<close>

datatype record_status = StatusPending | StatusProcessing | StatusCompleted | StatusError

record ResultRecord =
  record_status :: record_status
  payload :: "string option"
  error_detail :: "string option"
  updated_at :: nat

type_synonym result_store = "string \<rightharpoonup> ResultRecord"

datatype status_reply = NotFound | Found ResultRecord

definition GetStatus :: "result_store \<Rightarrow> string \<Rightarrow> status_reply" where
  "GetStatus store work_item_id =
     (case store work_item_id of None \<Rightarrow> NotFound | Some r \<Rightarrow> Found r)"

definition PutResult :: "string \<Rightarrow> ResultRecord \<Rightarrow> result_store \<Rightarrow> result_store" where
  "PutResult work_item_id r store = store(work_item_id \<mapsto> r)"

definition current_status :: "result_store \<Rightarrow> string \<Rightarrow> record_status" where
  "current_status store work_item_id =
     (case GetStatus store work_item_id of
        NotFound \<Rightarrow> StatusPending
      | Found r \<Rightarrow> record_status r)"

text \<open>
  The statuses a reader sees for one key: before a sequence of writes to that key, and
  after each of them.
\<close>

fun observed_statuses :: "result_store \<Rightarrow> string \<Rightarrow> ResultRecord list \<Rightarrow> record_status list" where
  "observed_statuses store k [] = [current_status store k]"
| "observed_statuses store k (r # rs) =
     current_status store k # observed_statuses (PutResult k r store) k rs"

text \<open>
  The spec's order \<open>pending \<rightarrow> processing \<rightarrow> {completed, error}\<close>: a transition is forward
  when the status stays or moves to a later stage; the two terminal statuses share the
  last stage, so neither may replace the other.
\<close>

definition status_stage :: "record_status \<Rightarrow> nat" where
  "status_stage st =
     (case st of
        StatusPending \<Rightarrow> 0
      | StatusProcessing \<Rightarrow> 1
      | StatusCompleted \<Rightarrow> 2
      | StatusError \<Rightarrow> 2)"

definition forward_transition :: "record_status \<Rightarrow> record_status \<Rightarrow> bool" where
  "forward_transition a b = (a = b \<or> status_stage a < status_stage b)"

fun monotone_forward :: "record_status list \<Rightarrow> bool" where
  "monotone_forward (a # b # rest) = (forward_transition a b \<and> monotone_forward (b # rest))"
| "monotone_forward _ = True"

text \<open>
  Modelled from the spec: the worker's processing of one delivery of a message, the only
  writer of the store (the worker's code is not among the sources; iam.tf lets the
  worker role alone put items). The classification capability is an opaque function of
  the object's bytes that gives a payload or fails. A delivery whose fetch of the
  object fails writes nothing and is retried by the queue; otherwise the worker writes
  a completed record with the payload, or an error record with the failure's detail.
  The object's bytes do not change once written, so every delivery for a work item
  classifies the same bytes.
\<close>

datatype classification = Classified string | InferenceFailed string

datatype processing = Retry | Terminal ResultRecord

definition process_delivery ::
  "(string \<Rightarrow> classification) \<Rightarrow> string option \<Rightarrow> nat \<Rightarrow> processing" where
  "process_delivery classify fetched now =
     (case fetched of
        None \<Rightarrow> Retry
      | Some bytes \<Rightarrow>
          (case classify bytes of
             Classified label \<Rightarrow>
               Terminal \<lparr>record_status = StatusCompleted, payload = Some label,
                         error_detail = None, updated_at = now\<rparr>
           | InferenceFailed detail \<Rightarrow>
               Terminal \<lparr>record_status = StatusError, payload = None,
                         error_detail = Some detail, updated_at = now\<rparr>))"

text \<open>
  The records that the workers write for one work item over its deliveries. A delivery
  is given by whether its fetch of the object succeeded and by its time.
\<close>

fun worker_writes ::
  "(string \<Rightarrow> classification) \<Rightarrow> string \<Rightarrow> (bool \<times> nat) list \<Rightarrow> ResultRecord list" where
  "worker_writes classify bytes [] = []"
| "worker_writes classify bytes ((fetched, now) # deliveries) =
     (case process_delivery classify (if fetched then Some bytes else None) now of
        Retry \<Rightarrow> worker_writes classify bytes deliveries
      | Terminal r \<Rightarrow> r # worker_writes classify bytes deliveries)"

definition terminal_status :: "(string \<Rightarrow> classification) \<Rightarrow> string \<Rightarrow> record_status" where
  "terminal_status classify bytes =
     (case classify bytes of
        Classified _ \<Rightarrow> StatusCompleted
      | InferenceFailed _ \<Rightarrow> StatusError)"

section \<open>The work queue and its dead-letter queue\<close>

text \<open>
  The two queue resources of the Terraform sources, and the bucket notification and
  queue policy that connect the uploads bucket to the main queue. A resource is named
  by its Terraform address.
\<close>

datatype arn = QueueArn string | BucketArn string

record redrive =
  deadLetterTargetArn :: arn
  maxReceiveCount :: nat

record aws_sqs_queue =
  queue_name :: string
  message_retention_seconds :: "nat option"
  receive_wait_time_seconds :: "nat option"
  visibility_timeout_seconds :: "nat option"
  redrive_policy :: "redrive option"

definition fish_queue_deadletter :: aws_sqs_queue where
  "fish_queue_deadletter =
     \<lparr>queue_name = ''fish-processing-queue-dlq'',
      message_retention_seconds = Some 1209600,
      receive_wait_time_seconds = None,
      visibility_timeout_seconds = None,
      redrive_policy = None\<rparr>"

definition fish_queue :: aws_sqs_queue where
  "fish_queue =
     \<lparr>queue_name = ''fish-processing-queue'',
      message_retention_seconds = None,
      receive_wait_time_seconds = Some 20,
      visibility_timeout_seconds = Some 330,
      redrive_policy =
        Some \<lparr>deadLetterTargetArn = QueueArn ''fish_queue_deadletter'', maxReceiveCount = 3\<rparr>\<rparr>"

record queue_target =
  queue_arn :: arn
  events :: "string list"

record aws_s3_bucket_notification =
  bucket :: arn
  queue :: "queue_target list"

definition bucket_notification :: aws_s3_bucket_notification where
  "bucket_notification =
     \<lparr>bucket = BucketArn ''fish_uploads'',
      queue = [\<lparr>queue_arn = QueueArn ''fish_queue'', events = [''s3:ObjectCreated:*'']\<rparr>]\<rparr>"

record policy_statement =
  Effect :: string
  Principal_Service :: string
  Action :: string
  Resource :: arn
  Condition_ArnLike_SourceArn :: arn

record aws_sqs_queue_policy =
  queue_url :: arn
  Statement :: "policy_statement list"

definition s3_to_sqs_policy :: aws_sqs_queue_policy where
  "s3_to_sqs_policy =
     \<lparr>queue_url = QueueArn ''fish_queue'',
      Statement =
        [\<lparr>Effect = ''Allow'',
          Principal_Service = ''s3.amazonaws.com'',
          Action = ''sqs:SendMessage'',
          Resource = QueueArn ''fish_queue'',
          Condition_ArnLike_SourceArn = BucketArn ''fish_uploads''\<rparr>]\<rparr>"

text \<open>
  Modelled from the spec: the event that the storage sends for a successful object
  write, which the sources configure but do not implement. A notification target
  receives the event when one of its event patterns matches the event's name (a
  pattern ending in \<open>*\<close> matches every name that starts with the rest of the pattern),
  the target queue's policy allows the storage service to send to it from that bucket,
  and the write was to the bucket of the notification. The result lists the queues
  that receive a message.
\<close>

datatype object_write = WritePut | WritePost | WriteCopy | WriteCompleteMultipartUpload

definition event_name :: "object_write \<Rightarrow> string" where
  "event_name w =
     (case w of
        WritePut \<Rightarrow> ''s3:ObjectCreated:Put''
      | WritePost \<Rightarrow> ''s3:ObjectCreated:Post''
      | WriteCopy \<Rightarrow> ''s3:ObjectCreated:Copy''
      | WriteCompleteMultipartUpload \<Rightarrow> ''s3:ObjectCreated:CompleteMultipartUpload'')"

definition event_matches :: "string \<Rightarrow> string \<Rightarrow> bool" where
  "event_matches pattern name =
     (if pattern \<noteq> [] \<and> last pattern = CHR ''*''
      then take (length pattern - 1) name = butlast pattern
      else name = pattern)"

definition policy_allows :: "aws_sqs_queue_policy \<Rightarrow> arn \<Rightarrow> arn \<Rightarrow> bool" where
  "policy_allows policy source target =
     (queue_url policy = target \<and>
      list_ex (\<lambda>st. Effect st = ''Allow'' \<and> Principal_Service st = ''s3.amazonaws.com'' \<and>
                    Action st = ''sqs:SendMessage'' \<and> Resource st = target \<and>
                    Condition_ArnLike_SourceArn st = source)
        (Statement policy))"

definition object_write_messages ::
  "aws_s3_bucket_notification \<Rightarrow> aws_sqs_queue_policy \<Rightarrow> arn \<Rightarrow> object_write \<Rightarrow> arn list" where
  "object_write_messages notification policy written_bucket w =
     (if bucket notification = written_bucket then
        map queue_arn
          (filter (\<lambda>target. list_ex (\<lambda>pattern. event_matches pattern (event_name w)) (events target) \<and>
                            policy_allows policy written_bucket (queue_arn target))
             (queue notification))
      else [])"

text \<open>
  Modelled from the spec: the queue's \<open>QueueMessage\<close> and its lease-based delivery,
  which the managed queue implements and the sources only configure. A message is
  created by an object-write event. \<open>ReceiveMessages\<close> leases messages that are not
  under a lease until a visibility deadline; \<open>Ack\<close> removes a message; when time passes
  a deadline without an acknowledgment, the message's \<open>delivery_count\<close> is incremented
  and the message becomes receivable again, unless the count now exceeds the threshold:
  then it is moved to the dead-letter holding area. The count of a new message
  is 1, so that the receiver of the second delivery sees 2, as the spec's crash
  scenario observes. The lease token, which only names the lease to acknowledge, is
  represented by the message's id. The threshold and the visibility timeout are read
  from the queue resource.
\<close>

record QueueMessage =
  message_id :: nat
  work_item_id :: string
  delivery_count :: nat
  visibility_deadline :: "nat option"

record queue_state =
  clock :: nat
  next_message_id :: nat
  in_queue :: "QueueMessage list"
  dead_letters :: "QueueMessage list"

datatype queue_op = ObjectWritten string | ReceiveMessages nat | Ack nat | Elapse nat

definition empty_queue :: queue_state where
  "empty_queue = \<lparr>clock = 0, next_message_id = 0, in_queue = [], dead_letters = []\<rparr>"

definition exceeds_threshold :: "aws_sqs_queue \<Rightarrow> QueueMessage \<Rightarrow> bool" where
  "exceeds_threshold q m =
     (case redrive_policy q of
        None \<Rightarrow> False
      | Some policy \<Rightarrow> delivery_count m > maxReceiveCount policy)"

definition lease_expired :: "nat \<Rightarrow> QueueMessage \<Rightarrow> bool" where
  "lease_expired t m =
     (case visibility_deadline m of None \<Rightarrow> False | Some deadline \<Rightarrow> deadline \<le> t)"

definition expire_lease :: "QueueMessage \<Rightarrow> QueueMessage" where
  "expire_lease m = m\<lparr>delivery_count := delivery_count m + 1, visibility_deadline := None\<rparr>"

definition after_expiry :: "nat \<Rightarrow> QueueMessage list \<Rightarrow> QueueMessage list" where
  "after_expiry t ms = map (\<lambda>m. if lease_expired t m then expire_lease m else m) ms"

definition lease_deadline :: "aws_sqs_queue \<Rightarrow> nat \<Rightarrow> nat" where
  "lease_deadline q t =
     t + (case visibility_timeout_seconds q of None \<Rightarrow> 30 | Some seconds \<Rightarrow> seconds)"

text \<open>
  Leasing up to \<open>n\<close> receivable messages: the queue's content afterwards, and the
  messages delivered.
\<close>

fun lease_messages ::
  "nat \<Rightarrow> nat \<Rightarrow> QueueMessage list \<Rightarrow> QueueMessage list \<times> QueueMessage list" where
  "lease_messages 0 deadline ms = (ms, [])"
| "lease_messages (Suc n) deadline [] = ([], [])"
| "lease_messages (Suc n) deadline (m # ms) =
     (if visibility_deadline m = None then
        (case lease_messages n deadline ms of
           (rest, delivered) \<Rightarrow>
             (m\<lparr>visibility_deadline := Some deadline\<rparr> # rest,
              m\<lparr>visibility_deadline := Some deadline\<rparr> # delivered))
      else
        (case lease_messages (Suc n) deadline ms of
           (rest, delivered) \<Rightarrow> (m # rest, delivered)))"

fun queue_step ::
  "aws_sqs_queue \<Rightarrow> queue_op \<Rightarrow> queue_state \<Rightarrow> queue_state \<times> QueueMessage list" where
  "queue_step q (ObjectWritten item) s =
     (s\<lparr>next_message_id := next_message_id s + 1,
        in_queue := in_queue s @
          [\<lparr>message_id = next_message_id s, work_item_id = item, delivery_count = 1,
            visibility_deadline = None\<rparr>]\<rparr>,
      [])"
| "queue_step q (ReceiveMessages n) s =
     (case lease_messages n (lease_deadline q (clock s)) (in_queue s) of
        (rest, delivered) \<Rightarrow> (s\<lparr>in_queue := rest\<rparr>, delivered))"
| "queue_step q (Ack i) s =
     (s\<lparr>in_queue := filter (\<lambda>m. message_id m \<noteq> i) (in_queue s)\<rparr>, [])"
| "queue_step q (Elapse dt) s =
     (s\<lparr>clock := clock s + dt,
        in_queue :=
          filter (\<lambda>m. \<not> exceeds_threshold q m) (after_expiry (clock s + dt) (in_queue s)),
        dead_letters := dead_letters s @
          filter (exceeds_threshold q) (after_expiry (clock s + dt) (in_queue s))\<rparr>,
      [])"

text \<open>A sequence of operations: the state at the end and every message delivered.\<close>

fun queue_run ::
  "aws_sqs_queue \<Rightarrow> queue_op list \<Rightarrow> queue_state \<Rightarrow> queue_state \<times> QueueMessage list" where
  "queue_run q [] s = (s, [])"
| "queue_run q (op # ops) s =
     (case queue_step q op s of
        (s', delivered) \<Rightarrow>
          (case queue_run q ops s' of
             (s'', later) \<Rightarrow> (s'', delivered @ later)))"

text \<open>
  What holds of every state that the operations reach from the empty queue, with the
  threshold 3 of the main queue: no message in the queue has a count above 3, every
  dead letter has one, ids are below the next id to give out, and no id occurs twice in
  the queue or both in the queue and among the dead letters.
\<close>

definition queue_invariant :: "queue_state \<Rightarrow> bool" where
  "queue_invariant s =
     ((\<forall>m \<in> set (in_queue s). delivery_count m \<le> 3) \<and>
      (\<forall>m \<in> set (dead_letters s). 3 < delivery_count m) \<and>
      (\<forall>m \<in> set (in_queue s). message_id m < next_message_id s) \<and>
      (\<forall>m \<in> set (dead_letters s). message_id m < next_message_id s) \<and>
      distinct (map message_id (in_queue s)) \<and>
      message_id ` set (in_queue s) \<inter> message_id ` set (dead_letters s) = {})"

text \<open>
  Modelled from the spec: a successful write of the object \<open>key\<close> to a bucket, seen
  from the work queue. Every message that the notification sends to the main queue
  becomes a \<open>QueueMessage\<close> for that object.
\<close>

definition upload_object :: "arn \<Rightarrow> object_write \<Rightarrow> string \<Rightarrow> queue_state \<Rightarrow> queue_state" where
  "upload_object written_bucket w key s =
     fold (\<lambda>target s'.
             if target = QueueArn ''fish_queue''
             then fst (queue_step fish_queue (ObjectWritten key) s') else s')
       (object_write_messages bucket_notification s3_to_sqs_policy written_bucket w) s"

section \<open>Classification of a reply, and the inputs of the examples\<close>

text \<open>
  What a reply means for a loop: it ends the loop with a success, it ends the loop with
  an error, or the loop goes on.
\<close>

datatype verdict = TerminalSuccess | TerminalError | ContinuePolling

definition verdict_of :: "'a iteration \<Rightarrow> verdict" where
  "verdict_of it =
     (case it of
        Return _ \<Rightarrow> TerminalSuccess
      | Throw _ \<Rightarrow> TerminalError
      | NextAttempt \<Rightarrow> ContinuePolling)"

text \<open>
  A backend that gives the same answer every time, a reply with status code 200 and a
  JSON body, a backend that answers pending until the \<open>n\<close>-th request and \<open>reply\<close> from
  then on, and some values to run the definitions on.
\<close>

definition always :: "'a \<Rightarrow> 'b \<Rightarrow> 'a" where
  "always x y = x"

definition json_reply :: "PollResponse \<Rightarrow> fetch_result" where
  "json_reply data = FetchResolved (HttpResponse 200 [] (Inr data))"

definition pending_until :: "int \<Rightarrow> fetch_result \<Rightarrow> int \<Rightarrow> fetch_result" where
  "pending_until n reply k =
     (if k < n then json_reply \<lparr>status = ''pending'', result = None, error = None\<rparr> else reply)"

definition a_fish :: FishResult where
  "a_fish =
     \<lparr>species = ''Sparus aurata'', hebrew_name = ''denis'', native = True,
      population = ''Stable'', avg_size_cm = 35, min_size_cm = 20, seasonal_ban = None,
      notes_field = [], description = []\<rparr>"

definition a_grant :: UploadUrlResponse where
  "a_grant = \<lparr>image_id = ''uploads/1.jpg'', upload_url = ''https://bucket'', upload_fields = []\<rparr>"

definition a_screen :: HomeScreen where
  "a_screen =
     \<lparr>imageUri = Some ''file:///fish.jpg'', uploadState = Idle, errorMessage = None,
      navigatedTo = None\<rparr>"

definition a_completed_record :: ResultRecord where
  "a_completed_record =
     \<lparr>record_status = StatusCompleted, payload = Some ''Sparus aurata'', error_detail = None,
      updated_at = 2\<rparr>"

definition a_processing_record :: ResultRecord where
  "a_processing_record =
     \<lparr>record_status = StatusProcessing, payload = None, error_detail = None, updated_at = 1\<rparr>"

definition a_classifier :: "string \<Rightarrow> classification" where
  "a_classifier bytes =
     (if bytes = ''corrupt'' then InferenceFailed ''cannot decode image''
      else Classified ''Sparus aurata'')"

definition a_user :: AuthUser where
  "a_user = \<lparr>userId = ''u-1'', username = ''fisher@example.org''\<rparr>"

section \<open>Properties of the two loops\<close>

declare pollResults_loop.simps [simp del]
declare pollForResults_interval.simps [simp del]

subsection \<open>The mobile loop\<close>

lemma pollResults_loop_next:
  assumes "attempt \<le> maxAttempts" and "pollResults_attempt (server attempt) = NextAttempt"
  shows "pollResults_loop server maxAttempts attempt sent waited =
         pollResults_loop server maxAttempts (attempt + 1) (sent + 1)
           (if attempt < maxAttempts then waited + POLL_INTERVAL_MS else waited)"
  using assms by (subst pollResults_loop.simps) simp

lemma pollResults_loop_settles:
  assumes "attempt \<le> maxAttempts"
  shows "pollResults_attempt (server attempt) = Return r \<Longrightarrow>
           pollResults_loop server maxAttempts attempt sent waited =
             \<lparr>outcome = Inr r, requests = sent + 1, waited_ms = waited\<rparr>"
    and "pollResults_attempt (server attempt) = Throw e \<Longrightarrow>
           pollResults_loop server maxAttempts attempt sent waited =
             \<lparr>outcome = Inl e, requests = sent + 1, waited_ms = waited\<rparr>"
  using assms by (subst pollResults_loop.simps, simp)+

lemma pollResults_loop_exhausted:
  assumes "maxAttempts < attempt"
  shows "pollResults_loop server maxAttempts attempt sent waited =
           \<lparr>outcome = Inl (JsError (pollResults_timeout_message maxAttempts)),
            requests = sent, waited_ms = waited\<rparr>"
  using assms by (subst pollResults_loop.simps) simp

lemma pollResults_loop_reaches:
  assumes "a \<le> k" and "k \<le> maxAttempts"
    and "\<forall>j. a \<le> j \<and> j < k \<longrightarrow> pollResults_attempt (server j) = NextAttempt"
  shows "pollResults_loop server maxAttempts a sent waited =
         pollResults_loop server maxAttempts k (sent + nat (k - a))
           (waited + POLL_INTERVAL_MS * (k - a))"
  using assms
proof (induction k rule: int_ge_induct)
  case base
  then show ?case by simp
next
  case (step i)
  have "pollResults_loop server maxAttempts a sent waited =
        pollResults_loop server maxAttempts i (sent + nat (i - a))
          (waited + POLL_INTERVAL_MS * (i - a))"
    using step by simp
  also have "\<dots> = pollResults_loop server maxAttempts (i + 1) (sent + nat (i - a) + 1)
          (waited + POLL_INTERVAL_MS * (i - a) + POLL_INTERVAL_MS)"
    using step by (subst pollResults_loop_next) auto
  also have "sent + nat (i - a) + 1 = sent + nat (i + 1 - a)"
    using step by simp
  also have "waited + POLL_INTERVAL_MS * (i - a) + POLL_INTERVAL_MS =
             waited + POLL_INTERVAL_MS * (i + 1 - a)"
    by (simp add: algebra_simps)
  finally show ?case .
qed

lemma pollResults_loop_times_out:
  assumes "a \<le> maxAttempts"
    and "\<forall>j. a \<le> j \<and> j \<le> maxAttempts \<longrightarrow> pollResults_attempt (server j) = NextAttempt"
  shows "pollResults_loop server maxAttempts a sent waited =
           \<lparr>outcome = Inl (JsError (pollResults_timeout_message maxAttempts)),
            requests = sent + nat (maxAttempts + 1 - a),
            waited_ms = waited + POLL_INTERVAL_MS * (maxAttempts - a)\<rparr>"
proof -
  have "pollResults_loop server maxAttempts a sent waited =
        pollResults_loop server maxAttempts maxAttempts (sent + nat (maxAttempts - a))
          (waited + POLL_INTERVAL_MS * (maxAttempts - a))"
    using assms by (intro pollResults_loop_reaches) auto
  also have "\<dots> = pollResults_loop server maxAttempts (maxAttempts + 1)
          (sent + nat (maxAttempts - a) + 1) (waited + POLL_INTERVAL_MS * (maxAttempts - a))"
    using assms by (subst pollResults_loop_next) auto
  also have "\<dots> = \<lparr>outcome = Inl (JsError (pollResults_timeout_message maxAttempts)),
            requests = sent + nat (maxAttempts - a) + 1,
            waited_ms = waited + POLL_INTERVAL_MS * (maxAttempts - a)\<rparr>"
    by (rule pollResults_loop_exhausted) simp
  also have "sent + nat (maxAttempts - a) + 1 = sent + nat (maxAttempts + 1 - a)"
    using assms by simp
  finally show ?thesis .
qed

lemma pollResults_loop_bounds:
  "requests (pollResults_loop server maxAttempts a sent waited) \<le> sent + nat (maxAttempts + 1 - a)
   \<and> waited \<le> waited_ms (pollResults_loop server maxAttempts a sent waited)
   \<and> waited_ms (pollResults_loop server maxAttempts a sent waited)
        \<le> waited + POLL_INTERVAL_MS * (if a \<le> maxAttempts then maxAttempts - a else 0)"
proof (induction server maxAttempts a sent waited rule: pollResults_loop.induct)
  case (1 server maxAttempts attempt sent waited)
  show ?case
  proof (cases "attempt \<le> maxAttempts")
    case False
    then show ?thesis by (simp add: pollResults_loop_exhausted)
  next
    case True
    show ?thesis
    proof (cases "pollResults_attempt (server attempt)")
      case (Return r)
      with True show ?thesis
        by (simp add: pollResults_loop_settles POLL_INTERVAL_MS_def)
    next
      case (Throw e)
      with True show ?thesis
        by (simp add: pollResults_loop_settles POLL_INTERVAL_MS_def)
    next
      case NextAttempt
      let ?w = "if attempt < maxAttempts then waited + POLL_INTERVAL_MS else waited"
      let ?rest = "pollResults_loop server maxAttempts (attempt + 1) (sent + 1) ?w"
      have eq: "pollResults_loop server maxAttempts attempt sent waited = ?rest"
        using True NextAttempt by (rule pollResults_loop_next)
      have ih: "requests ?rest \<le> sent + 1 + nat (maxAttempts + 1 - (attempt + 1))
          \<and> ?w \<le> waited_ms ?rest
          \<and> waited_ms ?rest \<le> ?w + POLL_INTERVAL_MS *
               (if attempt + 1 \<le> maxAttempts then maxAttempts - (attempt + 1) else 0)"
        using "1.IH" [OF True NextAttempt] .
      have r: "sent + 1 + nat (maxAttempts + 1 - (attempt + 1)) = sent + nat (maxAttempts + 1 - attempt)"
        using True by simp
      have w: "?w + POLL_INTERVAL_MS *
               (if attempt + 1 \<le> maxAttempts then maxAttempts - (attempt + 1) else 0)
             = waited + POLL_INTERVAL_MS * (maxAttempts - attempt)"
        using True by (auto simp: algebra_simps)
      have w0: "waited \<le> ?w"
        by (simp add: POLL_INTERVAL_MS_def)
      show ?thesis
        unfolding eq using ih r w w0 True by (simp del: One_nat_def)
    qed
  qed
qed


lemma pollResults_loop_outcome:
  "(\<exists>k r. a \<le> k \<and> k \<le> maxAttempts \<and> pollResults_attempt (server k) = Return r \<and>
      outcome (pollResults_loop server maxAttempts a sent waited) = Inr r \<and>
      requests (pollResults_loop server maxAttempts a sent waited) = sent + nat (k + 1 - a))
   \<or> (\<exists>k e. a \<le> k \<and> k \<le> maxAttempts \<and> pollResults_attempt (server k) = Throw e \<and>
      outcome (pollResults_loop server maxAttempts a sent waited) = Inl e \<and>
      requests (pollResults_loop server maxAttempts a sent waited) = sent + nat (k + 1 - a))
   \<or> ((\<forall>j. a \<le> j \<and> j \<le> maxAttempts \<longrightarrow> pollResults_attempt (server j) = NextAttempt) \<and>
      outcome (pollResults_loop server maxAttempts a sent waited) =
        Inl (JsError (pollResults_timeout_message maxAttempts)) \<and>
      requests (pollResults_loop server maxAttempts a sent waited) =
        sent + nat (maxAttempts + 1 - a))"
  (is "?P a sent waited")
proof (induction server maxAttempts a sent waited rule: pollResults_loop.induct)
  case (1 server maxAttempts attempt sent waited)
  show ?case
  proof (cases "attempt \<le> maxAttempts")
    case False
    then show ?thesis by (auto simp: pollResults_loop_exhausted)
  next
    case True
    show ?thesis
    proof (cases "pollResults_attempt (server attempt)")
      case (Return r)
      with True have "attempt \<le> attempt \<and> attempt \<le> maxAttempts \<and>
          pollResults_attempt (server attempt) = Return r \<and>
          outcome (pollResults_loop server maxAttempts attempt sent waited) = Inr r \<and>
          requests (pollResults_loop server maxAttempts attempt sent waited) =
            sent + nat (attempt + 1 - attempt)"
        by (simp add: pollResults_loop_settles)
      then show ?thesis by blast
    next
      case (Throw e)
      with True have "attempt \<le> attempt \<and> attempt \<le> maxAttempts \<and>
          pollResults_attempt (server attempt) = Throw e \<and>
          outcome (pollResults_loop server maxAttempts attempt sent waited) = Inl e \<and>
          requests (pollResults_loop server maxAttempts attempt sent waited) =
            sent + nat (attempt + 1 - attempt)"
        by (simp add: pollResults_loop_settles)
      then show ?thesis by blast
    next
      case NextAttempt
      let ?w = "if attempt < maxAttempts then waited + POLL_INTERVAL_MS else waited"
      let ?rest = "pollResults_loop server maxAttempts (attempt + 1) (sent + 1) ?w"
      have eq: "pollResults_loop server maxAttempts attempt sent waited = ?rest"
        using True NextAttempt by (rule pollResults_loop_next)
      have r: "\<And>k. attempt + 1 \<le> k \<Longrightarrow> sent + 1 + nat (k + 1 - (attempt + 1)) = sent + nat (k + 1 - attempt)"
        by simp
      have r': "sent + 1 + nat (maxAttempts + 1 - (attempt + 1)) = sent + nat (maxAttempts + 1 - attempt)"
        using True by simp
      from "1.IH" [OF True NextAttempt]
      consider
        (resolved) k r where "attempt + 1 \<le> k" "k \<le> maxAttempts"
          "pollResults_attempt (server k) = Return r" "outcome ?rest = Inr r"
          "requests ?rest = sent + 1 + nat (k + 1 - (attempt + 1))"
      | (rejected) k e where "attempt + 1 \<le> k" "k \<le> maxAttempts"
          "pollResults_attempt (server k) = Throw e" "outcome ?rest = Inl e"
          "requests ?rest = sent + 1 + nat (k + 1 - (attempt + 1))"
      | (exhausted) "\<forall>j. attempt + 1 \<le> j \<and> j \<le> maxAttempts \<longrightarrow>
            pollResults_attempt (server j) = NextAttempt"
          "outcome ?rest = Inl (JsError (pollResults_timeout_message maxAttempts))"
          "requests ?rest = sent + 1 + nat (maxAttempts + 1 - (attempt + 1))"
        by blast
      then show ?thesis
      proof cases
        case resolved
        then have "attempt \<le> k \<and> k \<le> maxAttempts \<and>
            pollResults_attempt (server k) = Return r \<and>
            outcome (pollResults_loop server maxAttempts attempt sent waited) = Inr r \<and>
            requests (pollResults_loop server maxAttempts attempt sent waited) =
              sent + nat (k + 1 - attempt)"
          using eq r [of k] by simp
        then show ?thesis by blast
      next
        case rejected
        then have "attempt \<le> k \<and> k \<le> maxAttempts \<and>
            pollResults_attempt (server k) = Throw e \<and>
            outcome (pollResults_loop server maxAttempts attempt sent waited) = Inl e \<and>
            requests (pollResults_loop server maxAttempts attempt sent waited) =
              sent + nat (k + 1 - attempt)"
          using eq r [of k] by simp
        then show ?thesis by blast
      next
        case exhausted
        have "\<forall>j. attempt \<le> j \<and> j \<le> maxAttempts \<longrightarrow>
            pollResults_attempt (server j) = NextAttempt"
        proof (intro allI impI)
          fix j assume j: "attempt \<le> j \<and> j \<le> maxAttempts"
          show "pollResults_attempt (server j) = NextAttempt"
          proof (cases "j = attempt")
            case True
            then show ?thesis using NextAttempt by simp
          next
            case False
            with j have "attempt + 1 \<le> j \<and> j \<le> maxAttempts" by simp
            then show ?thesis using exhausted(1) by blast
          qed
        qed
        moreover have "outcome (pollResults_loop server maxAttempts attempt sent waited) =
            Inl (JsError (pollResults_timeout_message maxAttempts))"
          using eq exhausted(2) by simp
        moreover have "requests (pollResults_loop server maxAttempts attempt sent waited) =
            sent + nat (maxAttempts + 1 - attempt)"
          using eq exhausted(3) r' by simp
        ultimately show ?thesis by blast
      qed
    qed
  qed
qed

subsection \<open>The web loop\<close>

lemma pollForResults_tick_next_facts:
  assumes "pollForResults_tick attempts token fetched = NextAttempt"
  shows "attempts < POLL_MAX_ATTEMPTS" and "\<not> token_missing token"
  using assms
  by (auto simp: pollForResults_tick_def authFetch_def split: sum.splits if_splits)

lemma pollForResults_interval_next:
  assumes "pollForResults_tick (attempts + 1) (tokens (attempts + 1)) (server (attempts + 1)) = NextAttempt"
  shows "pollForResults_interval tokens server attempts sent waited =
         pollForResults_interval tokens server (attempts + 1) (sent + 1) (waited + POLL_INTERVAL_MS)"
  using assms pollForResults_tick_next_facts(2) [OF assms]
  by (subst pollForResults_interval.simps) simp

lemma pollForResults_interval_settles:
  shows "pollForResults_tick (attempts + 1) (tokens (attempts + 1)) (server (attempts + 1)) = Return data \<Longrightarrow>
           pollForResults_interval tokens server attempts sent waited =
             \<lparr>outcome = Inr data,
              requests = (if token_missing (tokens (attempts + 1)) then sent else sent + 1),
              waited_ms = waited + POLL_INTERVAL_MS\<rparr>"
    and "pollForResults_tick (attempts + 1) (tokens (attempts + 1)) (server (attempts + 1)) = Throw e \<Longrightarrow>
           pollForResults_interval tokens server attempts sent waited =
             \<lparr>outcome = Inl e,
              requests = (if token_missing (tokens (attempts + 1)) then sent else sent + 1),
              waited_ms = waited + POLL_INTERVAL_MS\<rparr>"
  by (subst pollForResults_interval.simps, simp)+

lemma pollForResults_interval_reaches:
  assumes "a \<le> k"
    and "\<forall>j. a < j \<and> j \<le> k \<longrightarrow> pollForResults_tick j (tokens j) (server j) = NextAttempt"
  shows "pollForResults_interval tokens server a sent waited =
         pollForResults_interval tokens server k (sent + nat (k - a))
           (waited + POLL_INTERVAL_MS * (k - a))"
  using assms
proof (induction k rule: int_ge_induct)
  case base
  then show ?case by simp
next
  case (step i)
  have "pollForResults_interval tokens server a sent waited =
        pollForResults_interval tokens server i (sent + nat (i - a))
          (waited + POLL_INTERVAL_MS * (i - a))"
    using step by simp
  also have "\<dots> = pollForResults_interval tokens server (i + 1) (sent + nat (i - a) + 1)
          (waited + POLL_INTERVAL_MS * (i - a) + POLL_INTERVAL_MS)"
    using step by (subst pollForResults_interval_next) auto
  also have "sent + nat (i - a) + 1 = sent + nat (i + 1 - a)"
    using step by simp
  also have "waited + POLL_INTERVAL_MS * (i - a) + POLL_INTERVAL_MS =
             waited + POLL_INTERVAL_MS * (i + 1 - a)"
    by (simp add: algebra_simps)
  finally show ?case .
qed

subsection \<open>What one reply does, and where a run settles\<close>

lemma pollResults_attempt_json:
  assumes "response_ok response" and "body_json response = Inr data"
  shows "pollResults_attempt (FetchResolved response) =
     (if status data = ''completed'' \<and> result data \<noteq> None then Return (the (result data))
      else if status data = ''error'' then
        Throw (JsError (case error data of
                          Some detail \<Rightarrow> detail
                        | None \<Rightarrow> ''Fish identification failed on the server.''))
      else NextAttempt)"
  using assms by (simp add: pollResults_attempt_def)

lemma pollForResults_tick_json:
  assumes "\<not> token_missing token" and "response_ok response" and "body_json response = Inr data"
  shows "pollForResults_tick attempts token (FetchResolved response) =
     (if status data = ''ready'' then Return data
      else if attempts \<ge> POLL_MAX_ATTEMPTS then Throw (JsError POLL_TIMEOUT_TEXT)
      else NextAttempt)"
  using assms by (auto simp: pollForResults_tick_def authFetch_def response_ok_def)

lemma pollResults_timeout_message_default:
  "pollResults_timeout_message maxAttempts_default =
     ''Identification timed out after 20 attempts (~60s). Please try again.''"
  by (simp add: pollResults_timeout_message_def maxAttempts_default_def POLL_INTERVAL_MS_def
      js_string_of_int_def digit_char_def)

lemma pollResults_settles_at:
  assumes "1 \<le> k" and "k \<le> maxAttempts"
    and "\<forall>j. 1 \<le> j \<and> j < k \<longrightarrow> pollResults_attempt (server j) = NextAttempt"
  shows "pollResults_attempt (server k) = Return r \<Longrightarrow>
           pollResults server maxAttempts =
             \<lparr>outcome = Inr r, requests = nat k, waited_ms = POLL_INTERVAL_MS * (k - 1)\<rparr>"
    and "pollResults_attempt (server k) = Throw e \<Longrightarrow>
           pollResults server maxAttempts =
             \<lparr>outcome = Inl e, requests = nat k, waited_ms = POLL_INTERVAL_MS * (k - 1)\<rparr>"
proof -
  have reach: "pollResults server maxAttempts =
      pollResults_loop server maxAttempts k (nat (k - 1)) (POLL_INTERVAL_MS * (k - 1))"
    unfolding pollResults_def
    using pollResults_loop_reaches [OF assms(1) assms(2) assms(3), of 0 0] by simp
  have n: "nat (k - 1) + 1 = nat k"
    using assms(1) by simp
  show "pollResults_attempt (server k) = Return r \<Longrightarrow>
           pollResults server maxAttempts =
             \<lparr>outcome = Inr r, requests = nat k, waited_ms = POLL_INTERVAL_MS * (k - 1)\<rparr>"
    using reach n pollResults_loop_settles(1) [OF assms(2), of server r] by simp
  show "pollResults_attempt (server k) = Throw e \<Longrightarrow>
           pollResults server maxAttempts =
             \<lparr>outcome = Inl e, requests = nat k, waited_ms = POLL_INTERVAL_MS * (k - 1)\<rparr>"
    using reach n pollResults_loop_settles(2) [OF assms(2), of server e] by simp
qed

lemma pollForResults_resolves_at:
  assumes "1 \<le> k"
    and "\<forall>j. 1 \<le> j \<and> j < k \<longrightarrow> pollForResults_tick j (tokens j) (server j) = NextAttempt"
    and "pollForResults_tick k (tokens k) (server k) = Return data"
    and "\<not> token_missing (tokens k)"
  shows "pollForResults tokens server =
           \<lparr>outcome = Inr data, requests = nat k, waited_ms = POLL_INTERVAL_MS * k\<rparr>"
proof -
  have "0 \<le> k - 1" using assms(1) by simp
  moreover have "\<forall>j. 0 < j \<and> j \<le> k - 1 \<longrightarrow> pollForResults_tick j (tokens j) (server j) = NextAttempt"
    using assms(2) by auto
  ultimately have reach: "pollForResults tokens server =
      pollForResults_interval tokens server (k - 1) (nat (k - 1)) (POLL_INTERVAL_MS * (k - 1))"
    unfolding pollForResults_def
    using pollForResults_interval_reaches [of 0 "k - 1" tokens server 0 0] by simp
  have n: "nat (k - 1) + 1 = nat k"
    using assms(1) by simp
  have w: "POLL_INTERVAL_MS * (k - 1) + POLL_INTERVAL_MS = POLL_INTERVAL_MS * k"
    by (simp add: algebra_simps)
  have "pollForResults_interval tokens server (k - 1) (nat (k - 1)) (POLL_INTERVAL_MS * (k - 1)) =
      \<lparr>outcome = Inr data, requests = nat (k - 1) + 1,
       waited_ms = POLL_INTERVAL_MS * (k - 1) + POLL_INTERVAL_MS\<rparr>"
    using pollForResults_interval_settles(1) [of "k - 1" tokens server data] assms(3) assms(4)
    by simp
  then show ?thesis
    using reach n w by simp
qed

lemma latency_sum_mono:
  assumes "int n \<le> m"
  shows "(\<Sum>k = 1..int n. int (latency k)) \<le> (\<Sum>k = 1..m. int (latency k))"
proof (rule sum_mono2)
  show "finite {1..m}" by simp
  show "{1..int n} \<subseteq> {1..m}" using assms by auto
  show "\<And>b. b \<in> {1..m} - {1..int n} \<Longrightarrow> 0 \<le> int (latency b)" by simp
qed

lemma pollResults_elapsed_bound:
  "pollResults_elapsed_ms latency (pollResults server maxAttempts)
     \<le> POLL_INTERVAL_MS * (if 1 \<le> maxAttempts then maxAttempts - 1 else 0) +
        (\<Sum>k = 1..maxAttempts. int (latency k))"
proof -
  note b = pollResults_loop_bounds [of server maxAttempts 1 0 0, folded pollResults_def]
  have r: "int (requests (pollResults server maxAttempts)) \<le> maxAttempts \<or>
           requests (pollResults server maxAttempts) = 0"
    using b by auto
  have s: "(\<Sum>k = 1..int (requests (pollResults server maxAttempts)). int (latency k))
      \<le> (\<Sum>k = 1..maxAttempts. int (latency k))"
  proof (cases "requests (pollResults server maxAttempts) = 0")
    case True
    then show ?thesis by (simp add: sum_nonneg)
  next
    case False
    with r have "int (requests (pollResults server maxAttempts)) \<le> maxAttempts" by simp
    then show ?thesis by (rule latency_sum_mono)
  qed
  have w: "waited_ms (pollResults server maxAttempts)
        \<le> POLL_INTERVAL_MS * (if 1 \<le> maxAttempts then maxAttempts - 1 else 0)"
    using b by simp
  show ?thesis
    unfolding pollResults_elapsed_ms_def using s w by (rule_tac add_mono)
qed

lemmas example_defs =
  always_def json_reply_def pending_until_def pollResults_attempt_def pollForResults_tick_def authFetch_def
  token_missing_def response_ok_def

section \<open>The claims about the client poll loops\<close>

text \<open>
  C1, as the code has it. When the \<open>k\<close>-th reply that \<open>pollResults\<close> of the mobile
  client reads carries the status error, the loop stops there: it rejects with the
  reply's error text (or with a fixed message when the reply has none), having sent
  \<open>k\<close> requests and no more. \<open>pollForResults\<close> of the web client has no error status:
  for a reply with the status error its callback does what it does for any reply that
  is not ready, it keeps the timer running while fewer than \<open>POLL_MAX_ATTEMPTS\<close> runs
  were made and rejects with the timeout text otherwise.
\<close>

theorem error_status_rejects_in_mobile_loop_only:
  assumes "1 \<le> k" and "k \<le> maxAttempts"
    and "\<forall>j. 1 \<le> j \<and> j < k \<longrightarrow> pollResults_attempt (server j) = NextAttempt"
    and "server k = FetchResolved response"
    and "response_ok response" and "body_json response = Inr data"
    and "status data = ''error''"
  shows "pollResults server maxAttempts =
           \<lparr>outcome = Inl (JsError (case error data of
                                      Some detail \<Rightarrow> detail
                                    | None \<Rightarrow> ''Fish identification failed on the server.'')),
            requests = nat k, waited_ms = POLL_INTERVAL_MS * (k - 1)\<rparr>
         \<and> (\<not> token_missing token \<longrightarrow>
              pollForResults_tick attempts token (server k) =
                (if attempts \<ge> POLL_MAX_ATTEMPTS then Throw (JsError POLL_TIMEOUT_TEXT)
                 else NextAttempt))"
proof -
  have "pollResults_attempt (server k) =
      Throw (JsError (case error data of
                        Some detail \<Rightarrow> detail
                      | None \<Rightarrow> ''Fish identification failed on the server.''))"
    using assms(4-7) by (simp add: pollResults_attempt_json)
  then have mobile: "pollResults server maxAttempts =
           \<lparr>outcome = Inl (JsError (case error data of
                                      Some detail \<Rightarrow> detail
                                    | None \<Rightarrow> ''Fish identification failed on the server.'')),
            requests = nat k, waited_ms = POLL_INTERVAL_MS * (k - 1)\<rparr>"
    by (rule pollResults_settles_at(2) [OF assms(1-3)])
  have web: "\<not> token_missing token \<longrightarrow>
              pollForResults_tick attempts token (server k) =
                (if attempts \<ge> POLL_MAX_ATTEMPTS then Throw (JsError POLL_TIMEOUT_TEXT)
                 else NextAttempt)"
    using assms(4-7) by (simp add: pollForResults_tick_json)
  from mobile web show ?thesis by (rule conjI)
qed

text \<open>
  C1 as stated fails for the web client: against a backend that answers every request
  with the status error and an error text, \<open>pollForResults\<close> sends all 40 requests and
  then rejects with its timeout text, not with the error text.
\<close>

theorem error_status_web_keeps_polling:
  "pollForResults (always (Some ''jwt''))
     (always (json_reply \<lparr>status = ''error'', result = None, error = Some ''corrupt image''\<rparr>)) =
     \<lparr>outcome = Inl (JsError POLL_TIMEOUT_TEXT), requests = 40, waited_ms = 120000\<rparr>"
  by (simp add: pollForResults_def pollForResults_interval.simps example_defs
      POLL_MAX_ATTEMPTS_def POLL_INTERVAL_MS_def)

text \<open>
  The theorem at a backend that answers pending twice and then error: the mobile loop
  rejects with the error text at the third request, and the web callback goes on.
\<close>

theorem error_status_rejects_in_mobile_loop_only_witness:
  "pollResults
     (pending_until 3
        (json_reply \<lparr>status = ''error'', result = None, error = Some ''corrupt image''\<rparr>))
     20 =
     \<lparr>outcome = Inl (JsError ''corrupt image''), requests = 3, waited_ms = 6000\<rparr>
   \<and> pollForResults_tick 3 (Some ''jwt'')
       (json_reply \<lparr>status = ''error'', result = None, error = Some ''corrupt image''\<rparr>) =
       NextAttempt"
proof -
  let ?data = "\<lparr>status = ''error'', result = None, error = Some ''corrupt image''\<rparr>"
  let ?server = "pending_until 3 (json_reply ?data)"
  have "pollResults ?server 20 =
           \<lparr>outcome = Inl (JsError (case error ?data of
                                      Some detail \<Rightarrow> detail
                                    | None \<Rightarrow> ''Fish identification failed on the server.'')),
            requests = nat 3, waited_ms = POLL_INTERVAL_MS * (3 - 1)\<rparr>
         \<and> (\<not> token_missing (Some ''jwt'') \<longrightarrow>
              pollForResults_tick 3 (Some ''jwt'') (?server 3) =
                (if 3 \<ge> POLL_MAX_ATTEMPTS then Throw (JsError POLL_TIMEOUT_TEXT)
                 else NextAttempt))"
    by (rule error_status_rejects_in_mobile_loop_only
          [where response = "HttpResponse 200 [] (Inr ?data)"])
       (simp_all add: example_defs)
  then show ?thesis
    by (simp add: pending_until_def token_missing_def POLL_MAX_ATTEMPTS_def POLL_INTERVAL_MS_def)
qed

text \<open>
  C3, as the code has it. \<open>pollResults\<close> of the mobile client settles once its
  requests do, for every integer attempt limit up to \<open>exact_attempt_limit\<close>: it sends
  at most \<open>maxAttempts\<close> requests and its delays add up to at most one interval of
  3000 ms for each attempt but the last, 57 s with the default of 20 attempts. The time
  at which it settles is the time of its delays plus the time its requests took, so it
  is within 60 s plus one interval when the 20 requests together take no more than two
  intervals, and on a timeout it is 60 s minus one interval plus the time of the
  requests. It settles in one of three ways: some attempt returned a result (done),
  some attempt threw (error), or every attempt up to the limit was non-terminal and it
  rejects with the timeout message after exactly \<open>maxAttempts\<close> requests. A reply with
  the status pending or processing is non-terminal (the API reports a missing record as
  pending); after a non-terminal reply the loop waits one interval and makes another
  attempt when attempts remain, and times out without another request when none
  remain. The callback of the web client, too, lets the timer run on after a reply that
  is not ready only while fewer than \<open>POLL_MAX_ATTEMPTS\<close> runs were counted, and
  rejects with its timeout text otherwise.
\<close>

theorem mobile_poll_loop_settles_within_its_attempts:
  assumes "exact_attempt_limit maxAttempts"
  shows "requests (pollResults server maxAttempts) \<le> nat maxAttempts
   \<and> 0 \<le> waited_ms (pollResults server maxAttempts)
   \<and> waited_ms (pollResults server maxAttempts)
        \<le> POLL_INTERVAL_MS * (if 1 \<le> maxAttempts then maxAttempts - 1 else 0)
   \<and> pollResults_elapsed_ms latency (pollResults server maxAttempts)
        \<le> POLL_INTERVAL_MS * (if 1 \<le> maxAttempts then maxAttempts - 1 else 0) +
           (\<Sum>k = 1..maxAttempts. int (latency k))
   \<and> requests (pollResults server maxAttempts_default) \<le> 20
   \<and> waited_ms (pollResults server maxAttempts_default) \<le> 60000 - POLL_INTERVAL_MS
   \<and> ((\<Sum>k = 1..20. int (latency k)) \<le> 2 * POLL_INTERVAL_MS \<longrightarrow>
        pollResults_elapsed_ms latency (pollResults server maxAttempts_default)
          \<le> 60000 + POLL_INTERVAL_MS)
   \<and> ((\<exists>k r. 1 \<le> k \<and> k \<le> maxAttempts \<and> pollResults_attempt (server k) = Return r \<and>
          outcome (pollResults server maxAttempts) = Inr r \<and>
          requests (pollResults server maxAttempts) = nat k)
       \<or> (\<exists>k e. 1 \<le> k \<and> k \<le> maxAttempts \<and> pollResults_attempt (server k) = Throw e \<and>
          outcome (pollResults server maxAttempts) = Inl e \<and>
          requests (pollResults server maxAttempts) = nat k)
       \<or> ((\<forall>j. 1 \<le> j \<and> j \<le> maxAttempts \<longrightarrow> pollResults_attempt (server j) = NextAttempt) \<and>
          outcome (pollResults server maxAttempts) =
            Inl (JsError (pollResults_timeout_message maxAttempts)) \<and>
          requests (pollResults server maxAttempts) = nat maxAttempts))
   \<and> ((\<forall>j. 1 \<le> j \<and> j \<le> maxAttempts_default \<longrightarrow> pollResults_attempt (server j) = NextAttempt) \<longrightarrow>
        pollResults server maxAttempts_default =
          \<lparr>outcome = Inl (JsError (pollResults_timeout_message maxAttempts_default)),
           requests = 20, waited_ms = 60000 - POLL_INTERVAL_MS\<rparr> \<and>
        pollResults_elapsed_ms latency (pollResults server maxAttempts_default) =
          60000 - POLL_INTERVAL_MS + (\<Sum>k = 1..20. int (latency k)))
   \<and> (response_ok response \<and> body_json response = Inr data \<and>
        (status data = ''pending'' \<or> status data = ''processing'') \<longrightarrow>
        pollResults_attempt (FetchResolved response) = NextAttempt)
   \<and> (pollResults_attempt (server attempt) = NextAttempt \<and> attempt < maxAttempts \<longrightarrow>
        pollResults_loop server maxAttempts attempt sent waited =
        pollResults_loop server maxAttempts (attempt + 1) (sent + 1) (waited + POLL_INTERVAL_MS))
   \<and> (pollResults_attempt (server attempt) = NextAttempt \<and> attempt = maxAttempts \<longrightarrow>
        pollResults_loop server maxAttempts attempt sent waited =
          \<lparr>outcome = Inl (JsError (pollResults_timeout_message maxAttempts)),
           requests = sent + 1, waited_ms = waited\<rparr>)
   \<and> (\<not> token_missing token \<and> response_ok response \<and> body_json response = Inr data \<and>
        status data \<noteq> ''ready'' \<longrightarrow>
        pollForResults_tick attempts token (FetchResolved response) =
          (if attempts \<ge> POLL_MAX_ATTEMPTS then Throw (JsError POLL_TIMEOUT_TEXT)
           else NextAttempt))"
proof -
  note b = pollResults_loop_bounds [of server maxAttempts 1 0 0, folded pollResults_def]
  note d = pollResults_loop_bounds [of server maxAttempts_default 1 0 0, folded pollResults_def]
  have c1: "requests (pollResults server maxAttempts) \<le> nat maxAttempts"
    using b by simp
  have c2: "0 \<le> waited_ms (pollResults server maxAttempts)"
    using b by simp
  have c3: "waited_ms (pollResults server maxAttempts)
        \<le> POLL_INTERVAL_MS * (if 1 \<le> maxAttempts then maxAttempts - 1 else 0)"
    using b by simp
  have c3e: "pollResults_elapsed_ms latency (pollResults server maxAttempts)
        \<le> POLL_INTERVAL_MS * (if 1 \<le> maxAttempts then maxAttempts - 1 else 0) +
           (\<Sum>k = 1..maxAttempts. int (latency k))"
    by (rule pollResults_elapsed_bound)
  have c4: "requests (pollResults server maxAttempts_default) \<le> 20"
    using d by (simp add: maxAttempts_default_def)
  have c5: "waited_ms (pollResults server maxAttempts_default) \<le> 60000 - POLL_INTERVAL_MS"
    using d by (simp add: maxAttempts_default_def POLL_INTERVAL_MS_def)
  have c5e: "(\<Sum>k = 1..20. int (latency k)) \<le> 2 * POLL_INTERVAL_MS \<longrightarrow>
        pollResults_elapsed_ms latency (pollResults server maxAttempts_default)
          \<le> 60000 + POLL_INTERVAL_MS"
  proof
    assume "(\<Sum>k = 1..20. int (latency k)) \<le> 2 * POLL_INTERVAL_MS"
    then show "pollResults_elapsed_ms latency (pollResults server maxAttempts_default)
          \<le> 60000 + POLL_INTERVAL_MS"
      using pollResults_elapsed_bound [of latency server maxAttempts_default]
      by (simp add: maxAttempts_default_def POLL_INTERVAL_MS_def)
  qed
  have c6: "(\<exists>k r. 1 \<le> k \<and> k \<le> maxAttempts \<and> pollResults_attempt (server k) = Return r \<and>
          outcome (pollResults server maxAttempts) = Inr r \<and>
          requests (pollResults server maxAttempts) = nat k)
       \<or> (\<exists>k e. 1 \<le> k \<and> k \<le> maxAttempts \<and> pollResults_attempt (server k) = Throw e \<and>
          outcome (pollResults server maxAttempts) = Inl e \<and>
          requests (pollResults server maxAttempts) = nat k)
       \<or> ((\<forall>j. 1 \<le> j \<and> j \<le> maxAttempts \<longrightarrow> pollResults_attempt (server j) = NextAttempt) \<and>
          outcome (pollResults server maxAttempts) =
            Inl (JsError (pollResults_timeout_message maxAttempts)) \<and>
          requests (pollResults server maxAttempts) = nat maxAttempts)"
    using pollResults_loop_outcome [of 1 maxAttempts server 0 0, folded pollResults_def]
    by simp
  have c7: "(\<forall>j. 1 \<le> j \<and> j \<le> maxAttempts_default \<longrightarrow> pollResults_attempt (server j) = NextAttempt) \<longrightarrow>
        pollResults server maxAttempts_default =
          \<lparr>outcome = Inl (JsError (pollResults_timeout_message maxAttempts_default)),
           requests = 20, waited_ms = 60000 - POLL_INTERVAL_MS\<rparr> \<and>
        pollResults_elapsed_ms latency (pollResults server maxAttempts_default) =
          60000 - POLL_INTERVAL_MS + (\<Sum>k = 1..20. int (latency k))"
  proof
    assume a: "\<forall>j. 1 \<le> j \<and> j \<le> maxAttempts_default \<longrightarrow> pollResults_attempt (server j) = NextAttempt"
    have "1 \<le> maxAttempts_default" by (simp add: maxAttempts_default_def)
    from pollResults_loop_times_out [OF this a, of 0 0]
    have run: "pollResults server maxAttempts_default =
          \<lparr>outcome = Inl (JsError (pollResults_timeout_message maxAttempts_default)),
           requests = 20, waited_ms = 60000 - POLL_INTERVAL_MS\<rparr>"
      by (simp add: pollResults_def maxAttempts_default_def POLL_INTERVAL_MS_def)
    have "pollResults_elapsed_ms latency (pollResults server maxAttempts_default) =
          60000 - POLL_INTERVAL_MS + (\<Sum>k = 1..20. int (latency k))"
      unfolding run by (simp add: pollResults_elapsed_ms_def)
    with run show "pollResults server maxAttempts_default =
          \<lparr>outcome = Inl (JsError (pollResults_timeout_message maxAttempts_default)),
           requests = 20, waited_ms = 60000 - POLL_INTERVAL_MS\<rparr> \<and>
        pollResults_elapsed_ms latency (pollResults server maxAttempts_default) =
          60000 - POLL_INTERVAL_MS + (\<Sum>k = 1..20. int (latency k))"
      by (rule conjI)
  qed
  have c8: "response_ok response \<and> body_json response = Inr data \<and>
        (status data = ''pending'' \<or> status data = ''processing'') \<longrightarrow>
        pollResults_attempt (FetchResolved response) = NextAttempt"
    by (auto simp: pollResults_attempt_json)
  have c9: "pollResults_attempt (server attempt) = NextAttempt \<and> attempt < maxAttempts \<longrightarrow>
        pollResults_loop server maxAttempts attempt sent waited =
        pollResults_loop server maxAttempts (attempt + 1) (sent + 1) (waited + POLL_INTERVAL_MS)"
    by (simp add: pollResults_loop_next)
  have c10: "pollResults_attempt (server attempt) = NextAttempt \<and> attempt = maxAttempts \<longrightarrow>
        pollResults_loop server maxAttempts attempt sent waited =
          \<lparr>outcome = Inl (JsError (pollResults_timeout_message maxAttempts)),
           requests = sent + 1, waited_ms = waited\<rparr>"
  proof
    assume a: "pollResults_attempt (server attempt) = NextAttempt \<and> attempt = maxAttempts"
    then have "pollResults_loop server maxAttempts attempt sent waited =
        pollResults_loop server maxAttempts (attempt + 1) (sent + 1) waited"
      by (subst pollResults_loop_next) auto
    also have "\<dots> = \<lparr>outcome = Inl (JsError (pollResults_timeout_message maxAttempts)),
           requests = sent + 1, waited_ms = waited\<rparr>"
      using a by (intro pollResults_loop_exhausted) simp
    finally show "pollResults_loop server maxAttempts attempt sent waited =
          \<lparr>outcome = Inl (JsError (pollResults_timeout_message maxAttempts)),
           requests = sent + 1, waited_ms = waited\<rparr>" .
  qed
  have c11: "\<not> token_missing token \<and> response_ok response \<and> body_json response = Inr data \<and>
        status data \<noteq> ''ready'' \<longrightarrow>
        pollForResults_tick attempts token (FetchResolved response) =
          (if attempts \<ge> POLL_MAX_ATTEMPTS then Throw (JsError POLL_TIMEOUT_TEXT)
           else NextAttempt)"
    by (simp add: pollForResults_tick_json)
  show ?thesis
    by (intro conjI) (rule c1 c2 c3 c3e c4 c5 c5e c6 c7 c8 c9 c10 c11)+
qed

text \<open>
  C3 as stated fails: when every request takes one second to settle and every reply is
  pending, the default loop times out after its 20 requests and 57 s of delays, 77 s
  after it started, which is not within 60 s plus one interval.
\<close>

theorem slow_requests_settle_after_the_minute:
  "pollResults (always (json_reply \<lparr>status = ''pending'', result = None, error = None\<rparr>))
      maxAttempts_default =
     \<lparr>outcome = Inl (JsError
        ''Identification timed out after 20 attempts (~60s). Please try again.''),
      requests = 20, waited_ms = 57000\<rparr>
   \<and> pollResults_elapsed_ms (always 1000)
       (pollResults (always (json_reply \<lparr>status = ''pending'', result = None, error = None\<rparr>))
          maxAttempts_default) = 77000
   \<and> \<not> pollResults_elapsed_ms (always 1000)
       (pollResults (always (json_reply \<lparr>status = ''pending'', result = None, error = None\<rparr>))
          maxAttempts_default) \<le> 60000 + POLL_INTERVAL_MS"
  by (simp add: pollResults_def pollResults_loop.simps example_defs maxAttempts_default_def
      pollResults_timeout_message_default [unfolded maxAttempts_default_def]
      pollResults_elapsed_ms_def POLL_INTERVAL_MS_def)

text \<open>
  The theorem at a backend that always answers pending, each request taking 100 ms,
  with the default limit: the run times out after 20 requests, 59 s after it started;
  attempt 19 is followed by attempt 20 one interval later, and attempt 20 by the
  timeout; the web callback goes on at 39 counted runs and rejects at 40.
\<close>

theorem mobile_poll_loop_settles_within_its_attempts_witness:
  "pollResults (always (json_reply \<lparr>status = ''pending'', result = None, error = None\<rparr>))
      maxAttempts_default =
     \<lparr>outcome = Inl (JsError
        ''Identification timed out after 20 attempts (~60s). Please try again.''),
      requests = 20, waited_ms = 57000\<rparr>
   \<and> pollResults_elapsed_ms (always 100)
       (pollResults (always (json_reply \<lparr>status = ''pending'', result = None, error = None\<rparr>))
          maxAttempts_default) = 59000
   \<and> pollResults_elapsed_ms (always 100)
       (pollResults (always (json_reply \<lparr>status = ''pending'', result = None, error = None\<rparr>))
          maxAttempts_default) \<le> 63000
   \<and> pollResults_attempt (json_reply \<lparr>status = ''pending'', result = None, error = None\<rparr>) =
       NextAttempt
   \<and> pollResults_loop (always (json_reply \<lparr>status = ''pending'', result = None, error = None\<rparr>))
        20 19 18 54000 =
      pollResults_loop (always (json_reply \<lparr>status = ''pending'', result = None, error = None\<rparr>))
        20 20 19 57000
   \<and> pollResults_loop (always (json_reply \<lparr>status = ''pending'', result = None, error = None\<rparr>))
        20 20 19 57000 =
     \<lparr>outcome = Inl (JsError
        ''Identification timed out after 20 attempts (~60s). Please try again.''),
      requests = 20, waited_ms = 57000\<rparr>
   \<and> pollForResults_tick 39 (Some ''jwt'')
       (json_reply \<lparr>status = ''pending'', result = None, error = None\<rparr>) = NextAttempt
   \<and> pollForResults_tick 40 (Some ''jwt'')
       (json_reply \<lparr>status = ''pending'', result = None, error = None\<rparr>) =
       Throw (JsError POLL_TIMEOUT_TEXT)"
proof -
  let ?data = "\<lparr>status = ''pending'', result = None, error = None\<rparr>"
  let ?server = "always (json_reply ?data) :: int \<Rightarrow> fetch_result"
  let ?latency = "always 100 :: int \<Rightarrow> nat"
  have limit: "exact_attempt_limit 20"
    by (simp add: exact_attempt_limit_def POLL_INTERVAL_MS_def)
  have next_attempt: "\<And>j. pollResults_attempt (?server j) = NextAttempt"
    by (simp add: example_defs)
  have ok: "response_ok (HttpResponse 200 [] (Inr ?data))"
    by (simp add: response_ok_def)
  have quick: "(\<Sum>k = 1..20. int (?latency k)) = 2000"
    by (simp add: always_def)
  note at_19 = mobile_poll_loop_settles_within_its_attempts
    [OF limit, where server = ?server and attempt = 19 and sent = 18
       and waited = 54000 and response = "HttpResponse 200 [] (Inr ?data)" and data = ?data
       and latency = ?latency and token = "Some ''jwt''" and attempts = 39]
  note at_20 = mobile_poll_loop_settles_within_its_attempts
    [OF limit, where server = ?server and attempt = 20 and sent = 19
       and waited = 57000 and response = "HttpResponse 200 [] (Inr ?data)" and data = ?data
       and latency = ?latency and token = "Some ''jwt''" and attempts = 40]
  have a: "pollResults ?server maxAttempts_default =
     \<lparr>outcome = Inl (JsError
        ''Identification timed out after 20 attempts (~60s). Please try again.''),
      requests = 20, waited_ms = 57000\<rparr>"
    using at_19 next_attempt
    by (simp add: pollResults_timeout_message_default POLL_INTERVAL_MS_def)
  have a1: "pollResults_elapsed_ms ?latency (pollResults ?server maxAttempts_default) = 59000"
    using at_19 next_attempt quick
    by (simp add: POLL_INTERVAL_MS_def pollResults_elapsed_ms_def)
  have a2: "pollResults_elapsed_ms ?latency (pollResults ?server maxAttempts_default) \<le> 63000"
    using at_19 quick
    by (simp add: POLL_INTERVAL_MS_def)
  have b: "pollResults_attempt (json_reply ?data) = NextAttempt"
    using at_19 ok by (simp add: json_reply_def)
  have c: "pollResults_loop ?server 20 19 18 54000 = pollResults_loop ?server 20 20 19 57000"
    using at_19 next_attempt by (simp add: POLL_INTERVAL_MS_def)
  have d: "pollResults_loop ?server 20 20 19 57000 =
     \<lparr>outcome = Inl (JsError
        ''Identification timed out after 20 attempts (~60s). Please try again.''),
      requests = 20, waited_ms = 57000\<rparr>"
    using at_20 next_attempt
    by (simp add: pollResults_timeout_message_default [unfolded maxAttempts_default_def])
  have e: "pollForResults_tick 39 (Some ''jwt'') (json_reply ?data) = NextAttempt"
    using at_19 ok
    by (simp add: json_reply_def token_missing_def POLL_MAX_ATTEMPTS_def)
  have f: "pollForResults_tick 40 (Some ''jwt'') (json_reply ?data) =
       Throw (JsError POLL_TIMEOUT_TEXT)"
    using at_20 ok
    by (simp add: json_reply_def token_missing_def POLL_MAX_ATTEMPTS_def)
  show ?thesis
    by (intro conjI) (rule a a1 a2 b c d e f)+
qed

text \<open>
  C4, as the code has it. The mobile \<open>pollResults\<close> resolves with the result when the
  \<open>k\<close>-th reply has the status completed and carries a result; a reply with the status
  completed and no result is non-terminal for it. The web \<open>pollForResults\<close> resolves,
  displaying the reply, when the \<open>k\<close>-th reply has the status ready; the status
  completed is for it like any other status that is not ready.
\<close>

theorem completed_with_result_resolves_mobile_ready_resolves_web:
  assumes "1 \<le> k" and "server k = FetchResolved response"
    and "response_ok response" and "body_json response = Inr data"
  shows "(k \<le> maxAttempts \<and> status data = ''completed'' \<and> result data = Some r \<and>
          (\<forall>j. 1 \<le> j \<and> j < k \<longrightarrow> pollResults_attempt (server j) = NextAttempt) \<longrightarrow>
          pollResults server maxAttempts =
            \<lparr>outcome = Inr r, requests = nat k, waited_ms = POLL_INTERVAL_MS * (k - 1)\<rparr>)
       \<and> (status data = ''completed'' \<and> result data = None \<longrightarrow>
          pollResults_attempt (server k) = NextAttempt)
       \<and> (\<not> token_missing (tokens k) \<and> status data = ''ready'' \<and>
          (\<forall>j. 1 \<le> j \<and> j < k \<longrightarrow> pollForResults_tick j (tokens j) (server j) = NextAttempt) \<longrightarrow>
          pollForResults tokens server =
            \<lparr>outcome = Inr data, requests = nat k, waited_ms = POLL_INTERVAL_MS * k\<rparr>)
       \<and> (\<not> token_missing (tokens k) \<and> status data = ''completed'' \<longrightarrow>
          pollForResults_tick k (tokens k) (server k) =
            (if k \<ge> POLL_MAX_ATTEMPTS then Throw (JsError POLL_TIMEOUT_TEXT) else NextAttempt))"
proof -
  have m1: "k \<le> maxAttempts \<and> status data = ''completed'' \<and> result data = Some r \<and>
          (\<forall>j. 1 \<le> j \<and> j < k \<longrightarrow> pollResults_attempt (server j) = NextAttempt) \<longrightarrow>
          pollResults server maxAttempts =
            \<lparr>outcome = Inr r, requests = nat k, waited_ms = POLL_INTERVAL_MS * (k - 1)\<rparr>"
  proof
    assume a: "k \<le> maxAttempts \<and> status data = ''completed'' \<and> result data = Some r \<and>
          (\<forall>j. 1 \<le> j \<and> j < k \<longrightarrow> pollResults_attempt (server j) = NextAttempt)"
    then have "pollResults_attempt (server k) = Return r"
      using assms by (simp add: pollResults_attempt_json)
    with a assms(1) show "pollResults server maxAttempts =
            \<lparr>outcome = Inr r, requests = nat k, waited_ms = POLL_INTERVAL_MS * (k - 1)\<rparr>"
      by (intro pollResults_settles_at(1)) auto
  qed
  have m2: "status data = ''completed'' \<and> result data = None \<longrightarrow>
          pollResults_attempt (server k) = NextAttempt"
    using assms by (simp add: pollResults_attempt_json)
  have w1: "\<not> token_missing (tokens k) \<and> status data = ''ready'' \<and>
          (\<forall>j. 1 \<le> j \<and> j < k \<longrightarrow> pollForResults_tick j (tokens j) (server j) = NextAttempt) \<longrightarrow>
          pollForResults tokens server =
            \<lparr>outcome = Inr data, requests = nat k, waited_ms = POLL_INTERVAL_MS * k\<rparr>"
  proof
    assume a: "\<not> token_missing (tokens k) \<and> status data = ''ready'' \<and>
          (\<forall>j. 1 \<le> j \<and> j < k \<longrightarrow> pollForResults_tick j (tokens j) (server j) = NextAttempt)"
    then have "pollForResults_tick k (tokens k) (server k) = Return data"
      using assms by (simp add: pollForResults_tick_json)
    with a assms(1) show "pollForResults tokens server =
            \<lparr>outcome = Inr data, requests = nat k, waited_ms = POLL_INTERVAL_MS * k\<rparr>"
      by (intro pollForResults_resolves_at) auto
  qed
  have w2: "\<not> token_missing (tokens k) \<and> status data = ''completed'' \<longrightarrow>
          pollForResults_tick k (tokens k) (server k) =
            (if k \<ge> POLL_MAX_ATTEMPTS then Throw (JsError POLL_TIMEOUT_TEXT) else NextAttempt)"
    using assms by (simp add: pollForResults_tick_json)
  show ?thesis
    by (intro conjI) (rule m1 m2 w1 w2)+
qed

text \<open>
  C4 as stated fails: a backend that always answers completed without a result makes
  the mobile loop time out after 20 requests, and a backend that always answers
  completed, with a result, makes the web loop time out after 40 requests.
\<close>

theorem completed_without_result_or_in_web_loop_keeps_polling:
  "pollResults (always (json_reply \<lparr>status = ''completed'', result = None, error = None\<rparr>))
      maxAttempts_default =
     \<lparr>outcome = Inl (JsError
        ''Identification timed out after 20 attempts (~60s). Please try again.''),
      requests = 20, waited_ms = 57000\<rparr>
   \<and> pollForResults (always (Some ''jwt''))
       (always (json_reply \<lparr>status = ''completed'', result = Some a_fish, error = None\<rparr>)) =
     \<lparr>outcome = Inl (JsError POLL_TIMEOUT_TEXT), requests = 40, waited_ms = 120000\<rparr>"
  by (simp add: pollResults_def pollResults_loop.simps pollForResults_def
      pollForResults_interval.simps example_defs maxAttempts_default_def
      pollResults_timeout_message_default [unfolded maxAttempts_default_def]
      POLL_MAX_ATTEMPTS_def POLL_INTERVAL_MS_def)

text \<open>
  The theorem at backends that answer pending twice and then completed with a result
  (mobile), or ready (web).
\<close>

theorem completed_with_result_resolves_mobile_ready_resolves_web_witness:
  "pollResults
     (pending_until 3 (json_reply \<lparr>status = ''completed'', result = Some a_fish, error = None\<rparr>))
     20 =
     \<lparr>outcome = Inr a_fish, requests = 3, waited_ms = 6000\<rparr>
   \<and> pollResults_attempt (json_reply \<lparr>status = ''completed'', result = None, error = None\<rparr>) =
       NextAttempt
   \<and> pollForResults (always (Some ''jwt''))
       (pending_until 3 (json_reply \<lparr>status = ''ready'', result = None, error = None\<rparr>)) =
     \<lparr>outcome = Inr \<lparr>status = ''ready'', result = None, error = None\<rparr>,
      requests = 3, waited_ms = 9000\<rparr>
   \<and> pollForResults_tick 3 (Some ''jwt'')
       (json_reply \<lparr>status = ''completed'', result = Some a_fish, error = None\<rparr>) = NextAttempt"
proof -
  let ?completed = "\<lparr>status = ''completed'', result = Some a_fish, error = None\<rparr>"
  let ?empty = "\<lparr>status = ''completed'', result = None, error = None\<rparr>"
  let ?ready = "\<lparr>status = ''ready'', result = None, error = None\<rparr>"
  let ?tokens = "always (Some ''jwt'') :: int \<Rightarrow> string option"
  note mobile = completed_with_result_resolves_mobile_ready_resolves_web
    [where k = 3 and server = "pending_until 3 (json_reply ?completed)"
       and response = "HttpResponse 200 [] (Inr ?completed)" and data = ?completed
       and maxAttempts = 20 and r = a_fish and tokens = ?tokens]
  note no_result = completed_with_result_resolves_mobile_ready_resolves_web
    [where k = 3 and server = "pending_until 3 (json_reply ?empty)"
       and response = "HttpResponse 200 [] (Inr ?empty)" and data = ?empty]
  note web = completed_with_result_resolves_mobile_ready_resolves_web
    [where k = 3 and server = "pending_until 3 (json_reply ?ready)"
       and response = "HttpResponse 200 [] (Inr ?ready)" and data = ?ready
       and tokens = ?tokens]
  have a: "pollResults (pending_until 3 (json_reply ?completed)) 20 =
     \<lparr>outcome = Inr a_fish, requests = 3, waited_ms = 6000\<rparr>"
    using mobile by (simp add: example_defs POLL_INTERVAL_MS_def)
  have b: "pollResults_attempt (json_reply ?empty) = NextAttempt"
    using no_result by (simp add: example_defs)
  have c: "pollForResults ?tokens (pending_until 3 (json_reply ?ready)) =
     \<lparr>outcome = Inr ?ready, requests = 3, waited_ms = 9000\<rparr>"
    using web by (simp add: example_defs POLL_INTERVAL_MS_def POLL_MAX_ATTEMPTS_def)
  have d: "pollForResults_tick 3 (Some ''jwt'') (json_reply ?completed) = NextAttempt"
    using mobile by (simp add: example_defs POLL_MAX_ATTEMPTS_def)
  show ?thesis
    by (intro conjI) (rule a b c d)+
qed

text \<open>
  C8, as the code has it. When all 20 attempts meet a non-terminal reply,
  \<open>pollResults\<close> rejects with its timeout message and \<open>handleIdentify\<close> ends in the
  state error with that message as the error message. A server-reported error ends in
  the same state error, with the server's error text as the message. \<open>UploadState\<close> has
  the five values idle, uploading, processing, done and error, and no timeout state.
\<close>

theorem timeout_ends_in_the_error_state:
  assumes "imageUri screen \<noteq> None" and "imageUri screen \<noteq> Some []"
  shows "((\<forall>j. 1 \<le> j \<and> j \<le> maxAttempts_default \<longrightarrow>
             pollResults_attempt (backend (image_id grant) j) = NextAttempt) \<longrightarrow>
          handleIdentify (Inr grant) (Inr ()) backend screen =
            ([Uploading, Processing, Error],
             screen\<lparr>errorMessage :=
                      Some ''Identification timed out after 20 attempts (~60s). Please try again.'',
                    uploadState := Error\<rparr>))
       \<and> (1 \<le> k \<and> k \<le> maxAttempts_default \<and>
          (\<forall>j. 1 \<le> j \<and> j < k \<longrightarrow> pollResults_attempt (backend (image_id grant) j) = NextAttempt) \<and>
          backend (image_id grant) k = FetchResolved response \<and>
          response_ok response \<and> body_json response = Inr data \<and> status data = ''error'' \<longrightarrow>
          handleIdentify (Inr grant) (Inr ()) backend screen =
            ([Uploading, Processing, Error],
             screen\<lparr>errorMessage :=
                      Some (case error data of
                              Some detail \<Rightarrow> detail
                            | None \<Rightarrow> ''Fish identification failed on the server.''),
                    uploadState := Error\<rparr>))
       \<and> (UNIV :: UploadState set) = {Idle, Uploading, Processing, Done, Error}"
proof -
  have t: "(\<forall>j. 1 \<le> j \<and> j \<le> maxAttempts_default \<longrightarrow>
             pollResults_attempt (backend (image_id grant) j) = NextAttempt) \<longrightarrow>
          handleIdentify (Inr grant) (Inr ()) backend screen =
            ([Uploading, Processing, Error],
             screen\<lparr>errorMessage :=
                      Some ''Identification timed out after 20 attempts (~60s). Please try again.'',
                    uploadState := Error\<rparr>)"
  proof
    assume a: "\<forall>j. 1 \<le> j \<and> j \<le> maxAttempts_default \<longrightarrow>
             pollResults_attempt (backend (image_id grant) j) = NextAttempt"
    have "1 \<le> maxAttempts_default" by (simp add: maxAttempts_default_def)
    from pollResults_loop_times_out [OF this a, of 0 0]
    have "outcome (pollResults (backend (image_id grant)) maxAttempts_default) =
        Inl (JsError (pollResults_timeout_message maxAttempts_default))"
      by (simp add: pollResults_def)
    then show "handleIdentify (Inr grant) (Inr ()) backend screen =
            ([Uploading, Processing, Error],
             screen\<lparr>errorMessage :=
                      Some ''Identification timed out after 20 attempts (~60s). Please try again.'',
                    uploadState := Error\<rparr>)"
      using assms by (simp add: handleIdentify_def pollResults_timeout_message_default)
  qed
  have e: "1 \<le> k \<and> k \<le> maxAttempts_default \<and>
          (\<forall>j. 1 \<le> j \<and> j < k \<longrightarrow> pollResults_attempt (backend (image_id grant) j) = NextAttempt) \<and>
          backend (image_id grant) k = FetchResolved response \<and>
          response_ok response \<and> body_json response = Inr data \<and> status data = ''error'' \<longrightarrow>
          handleIdentify (Inr grant) (Inr ()) backend screen =
            ([Uploading, Processing, Error],
             screen\<lparr>errorMessage :=
                      Some (case error data of
                              Some detail \<Rightarrow> detail
                            | None \<Rightarrow> ''Fish identification failed on the server.''),
                    uploadState := Error\<rparr>)"
  proof
    assume a: "1 \<le> k \<and> k \<le> maxAttempts_default \<and>
          (\<forall>j. 1 \<le> j \<and> j < k \<longrightarrow> pollResults_attempt (backend (image_id grant) j) = NextAttempt) \<and>
          backend (image_id grant) k = FetchResolved response \<and>
          response_ok response \<and> body_json response = Inr data \<and> status data = ''error''"
    then have "pollResults_attempt (backend (image_id grant) k) =
        Throw (JsError (case error data of
                          Some detail \<Rightarrow> detail
                        | None \<Rightarrow> ''Fish identification failed on the server.''))"
      by (simp add: pollResults_attempt_json)
    with a have "pollResults (backend (image_id grant)) maxAttempts_default =
        \<lparr>outcome = Inl (JsError (case error data of
                                   Some detail \<Rightarrow> detail
                                 | None \<Rightarrow> ''Fish identification failed on the server.'')),
         requests = nat k, waited_ms = POLL_INTERVAL_MS * (k - 1)\<rparr>"
      by (intro pollResults_settles_at(2)) auto
    then show "handleIdentify (Inr grant) (Inr ()) backend screen =
            ([Uploading, Processing, Error],
             screen\<lparr>errorMessage :=
                      Some (case error data of
                              Some detail \<Rightarrow> detail
                            | None \<Rightarrow> ''Fish identification failed on the server.''),
                    uploadState := Error\<rparr>)"
      using assms by (simp add: handleIdentify_def)
  qed
  have u: "(UNIV :: UploadState set) = {Idle, Uploading, Processing, Done, Error}"
  proof -
    have "\<And>x :: UploadState. x \<in> {Idle, Uploading, Processing, Done, Error}"
    proof -
      fix x :: UploadState
      show "x \<in> {Idle, Uploading, Processing, Done, Error}" by (cases x) simp_all
    qed
    then show ?thesis by blast
  qed
  show ?thesis
    by (intro conjI) (rule t e u)+
qed

text \<open>
  C8 as stated fails: the screen's state after a timeout and its state after a
  server-reported error are the same state.
\<close>

theorem timeout_and_server_error_share_the_error_state:
  "uploadState (snd (handleIdentify (Inr a_grant) (Inr ())
      (always (always (json_reply \<lparr>status = ''pending'', result = None, error = None\<rparr>)))
      a_screen)) =
   uploadState (snd (handleIdentify (Inr a_grant) (Inr ())
      (always (always (json_reply
         \<lparr>status = ''error'', result = None, error = Some ''corrupt image''\<rparr>)))
      a_screen))"
  by (simp add: handleIdentify_def a_screen_def pollResults_def pollResults_loop.simps
      example_defs maxAttempts_default_def POLL_INTERVAL_MS_def)

text \<open>
  The theorem at a backend that always answers pending, and at one that answers
  pending twice and then error.
\<close>

theorem timeout_ends_in_the_error_state_witness:
  "handleIdentify (Inr a_grant) (Inr ())
      (always (always (json_reply \<lparr>status = ''pending'', result = None, error = None\<rparr>)))
      a_screen =
     ([Uploading, Processing, Error],
      a_screen\<lparr>errorMessage :=
                 Some ''Identification timed out after 20 attempts (~60s). Please try again.'',
               uploadState := Error\<rparr>)
   \<and> handleIdentify (Inr a_grant) (Inr ())
      (always (pending_until 3 (json_reply
         \<lparr>status = ''error'', result = None, error = Some ''corrupt image''\<rparr>)))
      a_screen =
     ([Uploading, Processing, Error],
      a_screen\<lparr>errorMessage := Some ''corrupt image'', uploadState := Error\<rparr>)"
proof -
  let ?pending = "\<lparr>status = ''pending'', result = None, error = None\<rparr>"
  let ?failed = "\<lparr>status = ''error'', result = None, error = Some ''corrupt image''\<rparr>"
  have image: "imageUri a_screen \<noteq> None" "imageUri a_screen \<noteq> Some []"
    by (simp_all add: a_screen_def)
  note timeout = timeout_ends_in_the_error_state
    [OF image, where backend = "always (always (json_reply ?pending))" and grant = a_grant]
  note failure = timeout_ends_in_the_error_state
    [OF image, where backend = "always (pending_until 3 (json_reply ?failed))"
       and grant = a_grant and k = 3 and response = "HttpResponse 200 [] (Inr ?failed)"
       and data = ?failed]
  have a: "handleIdentify (Inr a_grant) (Inr ()) (always (always (json_reply ?pending))) a_screen =
     ([Uploading, Processing, Error],
      a_screen\<lparr>errorMessage :=
                 Some ''Identification timed out after 20 attempts (~60s). Please try again.'',
               uploadState := Error\<rparr>)"
    using timeout by (simp add: example_defs)
  have b: "handleIdentify (Inr a_grant) (Inr ())
      (always (pending_until 3 (json_reply ?failed))) a_screen =
     ([Uploading, Processing, Error],
      a_screen\<lparr>errorMessage := Some ''corrupt image'', uploadState := Error\<rparr>)"
    using failure by (simp add: example_defs maxAttempts_default_def)
  show ?thesis
    by (intro conjI) (rule a b)+
qed

text \<open>
  C9, as the code has it. The two loops are not equivalent. For a reply with status
  code 2xx and a JSON body, the mobile loop ends with success on the status completed
  with a result, ends with an error on the status error, and continues otherwise; the
  web loop (with a token, before its last attempt) ends with success on the status
  ready and continues otherwise. So they agree, both continuing, on every status
  other than ready, completed and error.
\<close>

theorem loops_agree_only_outside_their_terminal_statuses:
  assumes "response_ok response" and "body_json response = Inr data"
    and "\<not> token_missing token" and "attempts < POLL_MAX_ATTEMPTS"
  shows "verdict_of (pollResults_attempt (FetchResolved response)) =
           (if status data = ''completed'' \<and> result data \<noteq> None then TerminalSuccess
            else if status data = ''error'' then TerminalError
            else ContinuePolling)
       \<and> verdict_of (pollForResults_tick attempts token (FetchResolved response)) =
           (if status data = ''ready'' then TerminalSuccess else ContinuePolling)
       \<and> (status data \<noteq> ''ready'' \<and> status data \<noteq> ''completed'' \<and> status data \<noteq> ''error'' \<longrightarrow>
            verdict_of (pollResults_attempt (FetchResolved response)) = ContinuePolling \<and>
            verdict_of (pollForResults_tick attempts token (FetchResolved response)) =
              ContinuePolling)"
  using assms
  by (simp add: pollResults_attempt_json pollForResults_tick_json verdict_of_def)

text \<open>
  C9 as stated fails: the two loops give different verdicts on the statuses ready,
  completed and error.
\<close>

theorem loops_disagree_on_ready_completed_and_error:
  "verdict_of (pollResults_attempt
      (json_reply \<lparr>status = ''ready'', result = Some a_fish, error = None\<rparr>)) = ContinuePolling
   \<and> verdict_of (pollForResults_tick 1 (Some ''jwt'')
      (json_reply \<lparr>status = ''ready'', result = Some a_fish, error = None\<rparr>)) = TerminalSuccess
   \<and> verdict_of (pollResults_attempt
      (json_reply \<lparr>status = ''completed'', result = Some a_fish, error = None\<rparr>)) = TerminalSuccess
   \<and> verdict_of (pollForResults_tick 1 (Some ''jwt'')
      (json_reply \<lparr>status = ''completed'', result = Some a_fish, error = None\<rparr>)) = ContinuePolling
   \<and> verdict_of (pollResults_attempt
      (json_reply \<lparr>status = ''error'', result = None, error = Some ''corrupt image''\<rparr>)) =
        TerminalError
   \<and> verdict_of (pollForResults_tick 1 (Some ''jwt'')
      (json_reply \<lparr>status = ''error'', result = None, error = Some ''corrupt image''\<rparr>)) =
        ContinuePolling"
  by (simp add: example_defs verdict_of_def POLL_MAX_ATTEMPTS_def)

text \<open>
  The theorem at a reply with the status processing.
\<close>

theorem loops_agree_only_outside_their_terminal_statuses_witness:
  "verdict_of (pollResults_attempt
      (json_reply \<lparr>status = ''processing'', result = None, error = None\<rparr>)) = ContinuePolling
   \<and> verdict_of (pollForResults_tick 1 (Some ''jwt'')
      (json_reply \<lparr>status = ''processing'', result = None, error = None\<rparr>)) = ContinuePolling"
proof -
  let ?data = "\<lparr>status = ''processing'', result = None, error = None\<rparr>"
  have "verdict_of (pollResults_attempt (FetchResolved (HttpResponse 200 [] (Inr ?data)))) =
           (if status ?data = ''completed'' \<and> result ?data \<noteq> None then TerminalSuccess
            else if status ?data = ''error'' then TerminalError
            else ContinuePolling)
       \<and> verdict_of (pollForResults_tick 1 (Some ''jwt'')
            (FetchResolved (HttpResponse 200 [] (Inr ?data)))) =
           (if status ?data = ''ready'' then TerminalSuccess else ContinuePolling)
       \<and> (status ?data \<noteq> ''ready'' \<and> status ?data \<noteq> ''completed'' \<and> status ?data \<noteq> ''error'' \<longrightarrow>
            verdict_of (pollResults_attempt (FetchResolved (HttpResponse 200 [] (Inr ?data)))) =
              ContinuePolling \<and>
            verdict_of (pollForResults_tick 1 (Some ''jwt'')
              (FetchResolved (HttpResponse 200 [] (Inr ?data)))) = ContinuePolling)"
    by (rule loops_agree_only_outside_their_terminal_statuses)
       (simp_all add: response_ok_def token_missing_def POLL_MAX_ATTEMPTS_def)
  then show ?thesis
    by (simp add: json_reply_def)
qed

section \<open>The claim about the auth facade\<close>

text \<open>
  C10. \<open>getCurrentUser\<close> never raises: whatever the SDK call does, it returns a
  value. With a signed-in user it returns that user's email (the Cognito username);
  with no session, where the SDK call throws, it returns null.
\<close>

theorem getCurrentUser_never_raises:
  "getCurrentUser (amplifyGetCurrentUser thrown (Some user)) = Inr (Some \<lparr>email = username user\<rparr>)
   \<and> getCurrentUser (amplifyGetCurrentUser thrown None) = Inr None
   \<and> (\<exists>v. getCurrentUser sdk = Inr v)"
  by (cases sdk) (simp_all add: getCurrentUser_def amplifyGetCurrentUser_def)

text \<open>
  The theorem at a signed-in user, and with no session.
\<close>

theorem getCurrentUser_never_raises_witness:
  "getCurrentUser (amplifyGetCurrentUser (JsError ''no user'') (Some a_user)) =
     Inr (Some \<lparr>email = ''fisher@example.org''\<rparr>)
   \<and> getCurrentUser (amplifyGetCurrentUser (JsError ''no user'') None) = Inr None"
  using getCurrentUser_never_raises [of "JsError ''no user''" a_user]
  by (simp add: a_user_def)

section \<open>Properties of the result store and of the queue\<close>

lemma current_status_PutResult:
  "current_status (PutResult k r store) k = record_status r"
  by (simp add: current_status_def GetStatus_def PutResult_def)

lemma observed_statuses_are_the_written:
  "observed_statuses store k rs = current_status store k # map record_status rs"
  by (induction rs arbitrary: store) (simp_all add: current_status_PutResult)

lemma worker_writes_statuses:
  "map record_status (worker_writes classify bytes deliveries) =
     replicate (length (worker_writes classify bytes deliveries)) (terminal_status classify bytes)"
proof (induction deliveries)
  case Nil
  then show ?case by simp
next
  case (Cons d deliveries)
  obtain fetched now where d: "d = (fetched, now)" by (cases d)
  show ?case
    using Cons.IH unfolding d
    by (cases fetched; cases "classify bytes")
      (simp_all add: process_delivery_def terminal_status_def)
qed

lemma terminal_status_stage:
  "status_stage (terminal_status classify bytes) = 2"
  by (cases "classify bytes") (simp_all add: terminal_status_def status_stage_def)

lemma monotone_forward_repeated:
  "monotone_forward (t # replicate n t)"
  by (induction n) (simp_all add: forward_transition_def)

lemma monotone_forward_pending_then:
  assumes "status_stage t = 2"
  shows "monotone_forward (StatusPending # replicate n t)"
proof (cases n)
  case 0
  then show ?thesis by simp
next
  case (Suc m)
  have "forward_transition StatusPending t"
    using assms by (simp add: forward_transition_def status_stage_def)
  then show ?thesis
    using Suc monotone_forward_repeated [of t m] by simp
qed

lemma monotone_forward_pairs:
  "monotone_forward xs =
     (\<forall>i. Suc i < length xs \<longrightarrow> forward_transition (xs ! i) (xs ! Suc i))"
proof (induction xs rule: monotone_forward.induct)
  case (1 a b rest)
  have "(\<forall>i. Suc i < length (a # b # rest) \<longrightarrow>
          forward_transition ((a # b # rest) ! i) ((a # b # rest) ! Suc i)) =
        (forward_transition a b \<and>
         (\<forall>i. Suc i < length (b # rest) \<longrightarrow>
            forward_transition ((b # rest) ! i) ((b # rest) ! Suc i)))"
  proof
    assume all: "\<forall>i. Suc i < length (a # b # rest) \<longrightarrow>
          forward_transition ((a # b # rest) ! i) ((a # b # rest) ! Suc i)"
    have "forward_transition a b"
      using all [rule_format, of 0] by simp
    moreover have "\<forall>i. Suc i < length (b # rest) \<longrightarrow>
            forward_transition ((b # rest) ! i) ((b # rest) ! Suc i)"
    proof (intro allI impI)
      fix i assume "Suc i < length (b # rest)"
      then show "forward_transition ((b # rest) ! i) ((b # rest) ! Suc i)"
        using all [rule_format, of "Suc i"] by simp
    qed
    ultimately show "forward_transition a b \<and>
         (\<forall>i. Suc i < length (b # rest) \<longrightarrow>
            forward_transition ((b # rest) ! i) ((b # rest) ! Suc i))"
      by (rule conjI)
  next
    assume both: "forward_transition a b \<and>
         (\<forall>i. Suc i < length (b # rest) \<longrightarrow>
            forward_transition ((b # rest) ! i) ((b # rest) ! Suc i))"
    show "\<forall>i. Suc i < length (a # b # rest) \<longrightarrow>
          forward_transition ((a # b # rest) ! i) ((a # b # rest) ! Suc i)"
    proof (intro allI impI)
      fix i assume i: "Suc i < length (a # b # rest)"
      show "forward_transition ((a # b # rest) ! i) ((a # b # rest) ! Suc i)"
      proof (cases i)
        case 0
        then show ?thesis using both by simp
      next
        case (Suc j)
        then have "Suc j < length (b # rest)" using i by simp
        then have "forward_transition ((b # rest) ! j) ((b # rest) ! Suc j)"
          using both by blast
        then show ?thesis using Suc by simp
      qed
    qed
  qed
  then show ?case
    using "1.IH" by simp
qed simp_all

lemma forward_transition_excludes:
  assumes "forward_transition a b"
  shows "(a, b) \<notin> {(StatusCompleted, StatusPending), (StatusCompleted, StatusProcessing),
                   (StatusError, StatusPending), (StatusError, StatusProcessing),
                   (StatusCompleted, StatusError), (StatusError, StatusCompleted)}"
  using assms by (auto simp: forward_transition_def status_stage_def)

lemma exceeds_threshold_fish_queue:
  "exceeds_threshold fish_queue m = (3 < delivery_count m)"
  by (simp add: exceeds_threshold_def fish_queue_def)

lemma lease_messages_ids:
  "map message_id (fst (lease_messages n deadline ms)) = map message_id ms"
  by (induction n deadline ms rule: lease_messages.induct) (auto split: prod.splits)

lemma lease_messages_counts:
  "map delivery_count (fst (lease_messages n deadline ms)) = map delivery_count ms"
  by (induction n deadline ms rule: lease_messages.induct) (auto split: prod.splits)

lemma lease_messages_delivered:
  "set (snd (lease_messages n deadline ms)) \<subseteq> set (fst (lease_messages n deadline ms))"
  by (induction n deadline ms rule: lease_messages.induct) (auto split: prod.splits)

lemma queue_step_received:
  "fst (queue_step q (ReceiveMessages n) s) =
     s\<lparr>in_queue := fst (lease_messages n (lease_deadline q (clock s)) (in_queue s))\<rparr>"
  "snd (queue_step q (ReceiveMessages n) s) =
     snd (lease_messages n (lease_deadline q (clock s)) (in_queue s))"
  by (simp_all split: prod.splits)

lemma queue_run_Cons:
  "fst (queue_run q (op # ops) s) = fst (queue_run q ops (fst (queue_step q op s)))"
  "snd (queue_run q (op # ops) s) =
     snd (queue_step q op s) @ snd (queue_run q ops (fst (queue_step q op s)))"
  by (simp_all split: prod.splits)

declare queue_step.simps(2) [simp del]
declare queue_run.simps(2) [simp del]
declare queue_step_received [simp]
declare queue_run_Cons [simp]

lemma after_expiry_ids:
  "map message_id (after_expiry t ms) = map message_id ms"
  by (simp add: after_expiry_def expire_lease_def)


lemma queue_invariant_empty: "queue_invariant empty_queue"
  by (simp add: queue_invariant_def empty_queue_def)

lemma set_from_map:
  fixes xs ys :: "QueueMessage list"
  assumes "map f xs = map f ys"
  shows "f ` set xs = f ` set ys"
  using assms by (metis set_map)

lemma counts_bounded_from_map:
  fixes xs ys :: "QueueMessage list"
  assumes "map delivery_count xs = map delivery_count ys"
    and "\<forall>m \<in> set ys. delivery_count m \<le> (3::nat)"
  shows "\<forall>m \<in> set xs. delivery_count m \<le> 3"
proof -
  have "delivery_count ` set xs = delivery_count ` set ys"
    using assms(1) by (rule set_from_map)
  then show ?thesis using assms(2) by (metis imageE imageI)
qed

lemma queue_invariant_written:
  assumes "queue_invariant s"
  shows "queue_invariant (fst (queue_step fish_queue (ObjectWritten item) s))"
proof -
  let ?new = "\<lparr>message_id = next_message_id s, work_item_id = item, delivery_count = 1,
            visibility_deadline = None\<rparr>"
  from assms have i1: "\<forall>m \<in> set (in_queue s). delivery_count m \<le> 3"
    and i2: "\<forall>m \<in> set (dead_letters s). 3 < delivery_count m"
    and i3: "\<forall>m \<in> set (in_queue s). message_id m < next_message_id s"
    and i4: "\<forall>m \<in> set (dead_letters s). message_id m < next_message_id s"
    and i5: "distinct (map message_id (in_queue s))"
    and i6: "message_id ` set (in_queue s) \<inter> message_id ` set (dead_letters s) = {}"
    by (simp_all add: queue_invariant_def)
  have fresh_in: "next_message_id s \<notin> message_id ` set (in_queue s)"
    using i3 by auto
  have fresh_dead: "next_message_id s \<notin> message_id ` set (dead_letters s)"
    using i4 by auto
  have "\<forall>m \<in> set (in_queue s @ [?new]). delivery_count m \<le> 3"
    using i1 by simp
  moreover have "\<forall>m \<in> set (in_queue s @ [?new]). message_id m < next_message_id s + 1"
    using i3 by (simp add: less_Suc_eq)
  moreover have "\<forall>m \<in> set (dead_letters s). message_id m < next_message_id s + 1"
    using i4 by (simp add: less_Suc_eq)
  moreover have "distinct (map message_id (in_queue s @ [?new]))"
    using i5 fresh_in by simp
  moreover have "message_id ` set (in_queue s @ [?new]) \<inter> message_id ` set (dead_letters s) = {}"
    using i6 fresh_dead by simp
  ultimately show ?thesis
    using i2 by (simp add: queue_invariant_def)
qed

lemma queue_invariant_received:
  assumes "queue_invariant s"
  shows "queue_invariant (fst (queue_step fish_queue (ReceiveMessages n) s))"
proof -
  let ?ms = "fst (lease_messages n (lease_deadline fish_queue (clock s)) (in_queue s))"
  from assms have i1: "\<forall>m \<in> set (in_queue s). delivery_count m \<le> 3"
    and i2: "\<forall>m \<in> set (dead_letters s). 3 < delivery_count m"
    and i3: "\<forall>m \<in> set (in_queue s). message_id m < next_message_id s"
    and i4: "\<forall>m \<in> set (dead_letters s). message_id m < next_message_id s"
    and i5: "distinct (map message_id (in_queue s))"
    and i6: "message_id ` set (in_queue s) \<inter> message_id ` set (dead_letters s) = {}"
    by (simp_all add: queue_invariant_def)
  have ids: "map message_id ?ms = map message_id (in_queue s)"
    by (rule lease_messages_ids)
  have img: "message_id ` set ?ms = message_id ` set (in_queue s)"
    using ids by (rule set_from_map)
  have "\<forall>m \<in> set ?ms. delivery_count m \<le> 3"
    using lease_messages_counts i1 by (rule counts_bounded_from_map)
  moreover have "\<forall>m \<in> set ?ms. message_id m < next_message_id s"
    using img i3 by (metis imageE imageI)
  moreover have "distinct (map message_id ?ms)"
    using ids i5 by simp
  moreover have "message_id ` set ?ms \<inter> message_id ` set (dead_letters s) = {}"
    using img i6 by simp
  ultimately show ?thesis
    using i2 i4 by (simp add: queue_invariant_def)
qed

lemma queue_invariant_acked:
  assumes "queue_invariant s"
  shows "queue_invariant (fst (queue_step fish_queue (Ack i) s))"
proof -
  let ?ms = "filter (\<lambda>m. message_id m \<noteq> i) (in_queue s)"
  from assms have i1: "\<forall>m \<in> set (in_queue s). delivery_count m \<le> 3"
    and i2: "\<forall>m \<in> set (dead_letters s). 3 < delivery_count m"
    and i3: "\<forall>m \<in> set (in_queue s). message_id m < next_message_id s"
    and i4: "\<forall>m \<in> set (dead_letters s). message_id m < next_message_id s"
    and i5: "distinct (map message_id (in_queue s))"
    and i6: "message_id ` set (in_queue s) \<inter> message_id ` set (dead_letters s) = {}"
    by (simp_all add: queue_invariant_def)
  have sub: "set ?ms \<subseteq> set (in_queue s)"
    by simp
  have "\<forall>m \<in> set ?ms. delivery_count m \<le> 3"
    using i1 by simp
  moreover have "\<forall>m \<in> set ?ms. message_id m < next_message_id s"
    using i3 by simp
  moreover have "distinct (map message_id ?ms)"
    using i5 by (rule distinct_map_filter)
  moreover have "message_id ` set ?ms \<inter> message_id ` set (dead_letters s) = {}"
    using i6 image_mono [OF sub, of message_id] by blast
  ultimately show ?thesis
    using i2 i4 by (simp add: queue_invariant_def)
qed

lemma queue_invariant_elapsed:
  assumes "queue_invariant s"
  shows "queue_invariant (fst (queue_step fish_queue (Elapse dt) s))"
proof -
  define ms where "ms = after_expiry (clock s + dt) (in_queue s)"
  define keep where "keep = filter (\<lambda>m. \<not> exceeds_threshold fish_queue m) ms"
  define move where "move = filter (exceeds_threshold fish_queue) ms"
  define dead where "dead = dead_letters s"
  define nxt where "nxt = next_message_id s"
  let ?s' = "fst (queue_step fish_queue (Elapse dt) s)"
  from assms have i2: "\<forall>m \<in> set dead. 3 < delivery_count m"
    and i3: "\<forall>m \<in> set (in_queue s). message_id m < nxt"
    and i4: "\<forall>m \<in> set dead. message_id m < nxt"
    and i5: "distinct (map message_id (in_queue s))"
    and i6: "message_id ` set (in_queue s) \<inter> message_id ` set dead = {}"
    by (simp_all add: queue_invariant_def dead_def nxt_def)
  have q: "in_queue ?s' = keep" "dead_letters ?s' = dead @ move" "next_message_id ?s' = nxt"
    by (simp_all add: keep_def move_def ms_def dead_def nxt_def)
  have ids: "map message_id ms = map message_id (in_queue s)"
    unfolding ms_def by (rule after_expiry_ids)
  have img: "message_id ` set ms = message_id ` set (in_queue s)"
    using ids by (rule set_from_map)
  have dist: "distinct (map message_id ms)"
    using ids i5 by simp
  have origin: "\<And>m. m \<in> set ms \<Longrightarrow> \<exists>m' \<in> set (in_queue s). message_id m = message_id m'"
  proof -
    fix m assume "m \<in> set ms"
    then have "message_id m \<in> message_id ` set ms"
      by (rule imageI)
    then have "message_id m \<in> message_id ` set (in_queue s)"
      by (simp only: img)
    then show "\<exists>m' \<in> set (in_queue s). message_id m = message_id m'"
      by (rule imageE) (rule bexI)
  qed
  have lt: "\<And>m. m \<in> set ms \<Longrightarrow> message_id m < nxt"
  proof -
    fix m assume "m \<in> set ms"
    from origin [OF this] obtain m' where "m' \<in> set (in_queue s)"
      and "message_id m = message_id m'" ..
    then show "message_id m < nxt"
      using i3 by simp
  qed
  have not_dead: "\<And>m d. m \<in> set ms \<Longrightarrow> d \<in> set dead \<Longrightarrow> message_id m \<noteq> message_id d"
  proof -
    fix m d assume m: "m \<in> set ms" and d: "d \<in> set dead"
    from origin [OF m] obtain m' where m': "m' \<in> set (in_queue s)"
      and eq: "message_id m = message_id m'" ..
    show "message_id m \<noteq> message_id d"
    proof
      assume "message_id m = message_id d"
      then have "message_id m' = message_id d" using eq by simp
      then have "message_id d \<in> message_id ` set (in_queue s)"
        using m' by (metis imageI)
      moreover have "message_id d \<in> message_id ` set dead"
        using d by (rule imageI)
      ultimately have "message_id d \<in> message_id ` set (in_queue s) \<inter> message_id ` set dead"
        by (rule IntI)
      then show False
        by (simp only: i6 empty_iff)
    qed
  qed
  have keep_ms: "\<And>m. m \<in> set keep \<Longrightarrow> m \<in> set ms"
    by (simp add: keep_def)
  have keep_count: "\<And>m. m \<in> set keep \<Longrightarrow> delivery_count m \<le> 3"
    by (simp add: keep_def exceeds_threshold_fish_queue)
  have move_ms: "\<And>m. m \<in> set move \<Longrightarrow> m \<in> set ms"
    by (simp add: move_def)
  have move_count: "\<And>m. m \<in> set move \<Longrightarrow> 3 < delivery_count m"
    by (simp add: move_def exceeds_threshold_fish_queue)
  have inj: "inj_on message_id (set ms)"
    using dist by (simp add: distinct_map)
  have c1: "\<forall>m \<in> set keep. delivery_count m \<le> 3"
    using keep_count by (rule ballI)
  have c2: "\<forall>m \<in> set (dead @ move). 3 < delivery_count m"
  proof
    fix m assume "m \<in> set (dead @ move)"
    then have "m \<in> set dead \<or> m \<in> set move"
      by (simp only: set_append Un_iff)
    then show "3 < delivery_count m"
    proof
      assume "m \<in> set dead" with i2 show ?thesis by (rule bspec)
    next
      assume "m \<in> set move" then show ?thesis by (rule move_count)
    qed
  qed
  have c3: "\<forall>m \<in> set keep. message_id m < nxt"
  proof
    fix m assume "m \<in> set keep"
    then have "m \<in> set ms" by (rule keep_ms)
    then show "message_id m < nxt" by (rule lt)
  qed
  have c4: "\<forall>m \<in> set (dead @ move). message_id m < nxt"
  proof
    fix m assume "m \<in> set (dead @ move)"
    then have "m \<in> set dead \<or> m \<in> set move"
      by (simp only: set_append Un_iff)
    then show "message_id m < nxt"
    proof
      assume "m \<in> set dead" with i4 show ?thesis by (rule bspec)
    next
      assume "m \<in> set move"
      then have "m \<in> set ms" by (rule move_ms)
      then show ?thesis by (rule lt)
    qed
  qed
  have c5: "distinct (map message_id keep)"
    unfolding keep_def using dist by (rule distinct_map_filter)
  have c6: "message_id ` set keep \<inter> message_id ` set (dead @ move) = {}"
  proof (rule ccontr)
    assume "message_id ` set keep \<inter> message_id ` set (dead @ move) \<noteq> {}"
    then obtain i where i1: "i \<in> message_id ` set keep"
      and i2: "i \<in> message_id ` set (dead @ move)"
      by blast
    from i1 obtain a where a: "a \<in> set keep" and ia: "i = message_id a" by (rule imageE)
    from i2 obtain b where b: "b \<in> set (dead @ move)" and ib: "i = message_id b" by (rule imageE)
    have eq: "message_id a = message_id b" using ia ib by simp
    have a_ms: "a \<in> set ms" using a by (rule keep_ms)
    from b have "b \<in> set dead \<or> b \<in> set move"
      by (simp only: set_append Un_iff)
    then show False
    proof
      assume "b \<in> set dead"
      with a_ms have "message_id a \<noteq> message_id b" by (rule not_dead)
      then show False using eq by simp
    next
      assume b': "b \<in> set move"
      then have b_ms: "b \<in> set ms" by (rule move_ms)
      have "a = b" using inj eq a_ms b_ms by (rule inj_onD)
      then have "delivery_count b \<le> 3" using keep_count [OF a] by simp
      moreover have "3 < delivery_count b" using b' by (rule move_count)
      ultimately show False by simp
    qed
  qed
  show ?thesis
    unfolding queue_invariant_def q
    by (intro conjI) (rule c1 c2 c3 c4 c5 c6)+
qed

lemma queue_step_invariant:
  assumes "queue_invariant s"
  shows "queue_invariant (fst (queue_step fish_queue op s))"
  using assms
  by (cases op)
    (simp_all only: queue_invariant_written queue_invariant_received queue_invariant_acked
      queue_invariant_elapsed)

lemma queue_run_invariant:
  assumes "queue_invariant s"
  shows "queue_invariant (fst (queue_run fish_queue ops s))"
  using assms
  by (induction ops arbitrary: s) (simp_all add: queue_step_invariant)

lemma queue_step_facts:
  "next_message_id s \<le> next_message_id (fst (queue_step q op s))"
  "message_id ` set (in_queue (fst (queue_step q op s)))
     \<subseteq> message_id ` set (in_queue s) \<union> {i. next_message_id s \<le> i}"
  "message_id ` set (snd (queue_step q op s)) \<subseteq> message_id ` set (in_queue s)"
  "set (dead_letters s) \<subseteq> set (dead_letters (fst (queue_step q op s)))"
proof -
  show "next_message_id s \<le> next_message_id (fst (queue_step q op s))"
    by (cases op) simp_all
  show "message_id ` set (in_queue (fst (queue_step q op s)))
     \<subseteq> message_id ` set (in_queue s) \<union> {i. next_message_id s \<le> i}"
  proof (cases op)
    case (ReceiveMessages n)
    then show ?thesis
      using set_from_map [OF lease_messages_ids [of n "lease_deadline q (clock s)" "in_queue s"]]
      by simp
  next
    case (Elapse dt)
    have "message_id ` set (after_expiry (clock s + dt) (in_queue s)) = message_id ` set (in_queue s)"
      by (rule set_from_map [OF after_expiry_ids])
    then show ?thesis
      using Elapse by auto
  qed auto
  show "message_id ` set (snd (queue_step q op s)) \<subseteq> message_id ` set (in_queue s)"
  proof (cases op)
    case (ReceiveMessages n)
    have "set (snd (lease_messages n (lease_deadline q (clock s)) (in_queue s)))
        \<subseteq> set (fst (lease_messages n (lease_deadline q (clock s)) (in_queue s)))"
      by (rule lease_messages_delivered)
    then have "message_id ` set (snd (lease_messages n (lease_deadline q (clock s)) (in_queue s)))
        \<subseteq> message_id ` set (fst (lease_messages n (lease_deadline q (clock s)) (in_queue s)))"
      by (rule image_mono)
    then show ?thesis
      using ReceiveMessages
        set_from_map [OF lease_messages_ids [of n "lease_deadline q (clock s)" "in_queue s"]]
      by simp
  qed simp_all
  show "set (dead_letters s) \<subseteq> set (dead_letters (fst (queue_step q op s)))"
    by (cases op) auto
qed

lemma queue_run_delivers_from_queue:
  "message_id ` set (snd (queue_run q ops s))
     \<subseteq> message_id ` set (in_queue s) \<union> {i. next_message_id s \<le> i}"
proof (induction ops arbitrary: s)
  case Nil
  then show ?case by simp
next
  case (Cons op ops)
  let ?s = "fst (queue_step q op s)"
  have "message_id ` set (snd (queue_run q ops ?s))
      \<subseteq> message_id ` set (in_queue ?s) \<union> {i. next_message_id ?s \<le> i}"
    by (rule Cons.IH)
  also have "\<dots> \<subseteq> message_id ` set (in_queue s) \<union> {i. next_message_id s \<le> i}"
    using queue_step_facts(1) [of s q op] queue_step_facts(2) [of q op s] by auto
  finally have rest: "message_id ` set (snd (queue_run q ops ?s))
      \<subseteq> message_id ` set (in_queue s) \<union> {i. next_message_id s \<le> i}" .
  show ?case
    using rest queue_step_facts(3) [of q op s] by auto
qed

lemma queue_run_keeps_dead_letters:
  "set (dead_letters s) \<subseteq> set (dead_letters (fst (queue_run q ops s)))"
proof (induction ops arbitrary: s)
  case Nil
  then show ?case by simp
next
  case (Cons op ops)
  show ?case
    using queue_step_facts(4) [of s q op] Cons.IH [of "fst (queue_step q op s)"] by auto
qed

lemma dead_letter_not_delivered:
  assumes "queue_invariant s" and "m \<in> set (dead_letters s)"
  shows "message_id m \<notin> message_id ` set (snd (queue_run q ops s))"
proof
  assume "message_id m \<in> message_id ` set (snd (queue_run q ops s))"
  then have "message_id m \<in> message_id ` set (in_queue s) \<union> {i. next_message_id s \<le> i}"
    using queue_run_delivers_from_queue by blast
  moreover have "message_id m < next_message_id s"
    using assms by (simp add: queue_invariant_def)
  moreover have "message_id m \<notin> message_id ` set (in_queue s)"
    using assms unfolding queue_invariant_def by blast
  ultimately show False by simp
qed

lemma expired_at_threshold_is_moved:
  assumes "m \<in> set (in_queue s)" and "lease_expired (clock s + dt) m"
    and "delivery_count m = 3"
  shows "expire_lease m \<in> set (dead_letters (fst (queue_step fish_queue (Elapse dt) s)))"
proof -
  have "expire_lease m \<in> set (after_expiry (clock s + dt) (in_queue s))"
    using assms(1) assms(2) by (force simp: after_expiry_def)
  moreover have "exceeds_threshold fish_queue (expire_lease m)"
    using assms(3) by (simp add: exceeds_threshold_fish_queue expire_lease_def)
  ultimately show ?thesis by simp
qed

lemmas queue_evaluation =
  queue_run.simps queue_step.simps empty_queue_def lease_deadline_def fish_queue_def
  after_expiry_def lease_expired_def expire_lease_def exceeds_threshold_def

lemma three_expired_leases:
  "fst (queue_run fish_queue
      [ObjectWritten ''uploads/1.jpg'', ReceiveMessages 1, Elapse 330, ReceiveMessages 1,
       Elapse 330, ReceiveMessages 1] empty_queue) =
     \<lparr>clock = 660, next_message_id = 1,
      in_queue = [\<lparr>message_id = 0, work_item_id = ''uploads/1.jpg'', delivery_count = 3,
                   visibility_deadline = Some 990\<rparr>],
      dead_letters = []\<rparr>"
  by (simp add: queue_evaluation del: queue_run_Cons queue_step_received)

lemma four_expired_leases:
  "fst (queue_run fish_queue
      [ObjectWritten ''uploads/1.jpg'', ReceiveMessages 1, Elapse 330, ReceiveMessages 1,
       Elapse 330, ReceiveMessages 1, Elapse 330] empty_queue) =
     \<lparr>clock = 990, next_message_id = 1, in_queue = [],
      dead_letters = [\<lparr>message_id = 0, work_item_id = ''uploads/1.jpg'', delivery_count = 4,
                       visibility_deadline = None\<rparr>]\<rparr>"
  by (simp add: queue_evaluation del: queue_run_Cons queue_step_received)

section \<open>The claims about the result store, the queue and the upload event\<close>

text \<open>
  C2. The main queue's redrive policy names the dead-letter queue with the threshold
  3. In every state that the queue reaches from the empty queue, no message in the
  main queue has a \<open>delivery_count\<close> above 3; a message whose lease expires at count 3
  is moved to the dead letters and is no longer in the main queue; and a dead letter
  has a count above 3, is not in the main queue, stays a dead letter, and is not
  delivered by any later sequence of operations.
\<close>

theorem dead_letter_after_threshold:
  assumes "s = fst (queue_run fish_queue ops empty_queue)"
  shows "redrive_policy fish_queue =
           Some \<lparr>deadLetterTargetArn = QueueArn ''fish_queue_deadletter'', maxReceiveCount = 3\<rparr>
       \<and> (\<forall>m \<in> set (in_queue s). delivery_count m \<le> 3)
       \<and> (\<forall>m \<in> set (in_queue s).
             lease_expired (clock s + dt) m \<and> delivery_count m = 3 \<longrightarrow>
               expire_lease m \<in> set (dead_letters (fst (queue_step fish_queue (Elapse dt) s))) \<and>
               message_id m \<notin>
                 message_id ` set (in_queue (fst (queue_step fish_queue (Elapse dt) s))))
       \<and> (\<forall>m \<in> set (dead_letters s).
             3 < delivery_count m \<and>
             message_id m \<notin> message_id ` set (in_queue s) \<and>
             message_id m \<notin> message_id ` set (snd (queue_run fish_queue later s)) \<and>
             m \<in> set (dead_letters (fst (queue_run fish_queue later s))))"
proof -
  have inv: "queue_invariant s"
    unfolding assms using queue_invariant_empty by (rule queue_run_invariant)
  have c0: "redrive_policy fish_queue =
           Some \<lparr>deadLetterTargetArn = QueueArn ''fish_queue_deadletter'', maxReceiveCount = 3\<rparr>"
    by (simp add: fish_queue_def)
  have c1: "\<forall>m \<in> set (in_queue s). delivery_count m \<le> 3"
    using inv by (simp add: queue_invariant_def)
  have c2: "\<forall>m \<in> set (in_queue s).
             lease_expired (clock s + dt) m \<and> delivery_count m = 3 \<longrightarrow>
               expire_lease m \<in> set (dead_letters (fst (queue_step fish_queue (Elapse dt) s))) \<and>
               message_id m \<notin>
                 message_id ` set (in_queue (fst (queue_step fish_queue (Elapse dt) s)))"
  proof (intro ballI impI)
    fix m
    assume m: "m \<in> set (in_queue s)"
      and e: "lease_expired (clock s + dt) m \<and> delivery_count m = 3"
    let ?s' = "fst (queue_step fish_queue (Elapse dt) s)"
    have moved: "expire_lease m \<in> set (dead_letters ?s')"
      using m e by (intro expired_at_threshold_is_moved) simp_all
    have inv': "queue_invariant ?s'"
      using inv by (rule queue_step_invariant)
    have "message_id (expire_lease m) \<in> message_id ` set (dead_letters ?s')"
      using moved by (rule imageI)
    then have "message_id m \<in> message_id ` set (dead_letters ?s')"
      by (simp add: expire_lease_def)
    moreover have "message_id ` set (in_queue ?s') \<inter> message_id ` set (dead_letters ?s') = {}"
      using inv' by (simp add: queue_invariant_def)
    ultimately have "message_id m \<notin> message_id ` set (in_queue ?s')"
      by (metis IntI empty_iff)
    with moved show "expire_lease m \<in> set (dead_letters ?s') \<and>
        message_id m \<notin> message_id ` set (in_queue ?s')"
      by (rule conjI)
  qed
  have c3: "\<forall>m \<in> set (dead_letters s).
             3 < delivery_count m \<and>
             message_id m \<notin> message_id ` set (in_queue s) \<and>
             message_id m \<notin> message_id ` set (snd (queue_run fish_queue later s)) \<and>
             m \<in> set (dead_letters (fst (queue_run fish_queue later s)))"
  proof (intro ballI conjI)
    fix m assume m: "m \<in> set (dead_letters s)"
    show "3 < delivery_count m"
      using inv m by (simp add: queue_invariant_def)
    have "message_id m \<in> message_id ` set (dead_letters s)"
      using m by (rule imageI)
    moreover have "message_id ` set (in_queue s) \<inter> message_id ` set (dead_letters s) = {}"
      using inv by (simp add: queue_invariant_def)
    ultimately show "message_id m \<notin> message_id ` set (in_queue s)"
      by (metis IntI empty_iff)
    show "message_id m \<notin> message_id ` set (snd (queue_run fish_queue later s))"
      using inv m by (rule dead_letter_not_delivered)
    show "m \<in> set (dead_letters (fst (queue_run fish_queue later s)))"
      using m queue_run_keeps_dead_letters [of s fish_queue later] by (rule rev_subsetD)
  qed
  show ?thesis
    by (intro conjI) (rule c0 c1 c2 c3)+
qed

text \<open>
  The theorem at one uploaded object whose lease expires three times, and at the
  operations that follow once it is a dead letter.
\<close>

theorem dead_letter_after_threshold_witness:
  "\<lparr>message_id = 0, work_item_id = ''uploads/1.jpg'', delivery_count = 4,
     visibility_deadline = None\<rparr>
     \<in> set (dead_letters (fst (queue_step fish_queue (Elapse 330)
          (fst (queue_run fish_queue
             [ObjectWritten ''uploads/1.jpg'', ReceiveMessages 1, Elapse 330, ReceiveMessages 1,
              Elapse 330, ReceiveMessages 1] empty_queue)))))
   \<and> 0 \<notin> message_id ` set (in_queue (fst (queue_step fish_queue (Elapse 330)
          (fst (queue_run fish_queue
             [ObjectWritten ''uploads/1.jpg'', ReceiveMessages 1, Elapse 330, ReceiveMessages 1,
              Elapse 330, ReceiveMessages 1] empty_queue)))))
   \<and> 0 \<notin> message_id ` set (snd (queue_run fish_queue
          [ReceiveMessages 10, Elapse 1000, ObjectWritten ''uploads/2.jpg'', ReceiveMessages 10]
          (fst (queue_run fish_queue
             [ObjectWritten ''uploads/1.jpg'', ReceiveMessages 1, Elapse 330, ReceiveMessages 1,
              Elapse 330, ReceiveMessages 1, Elapse 330] empty_queue))))"
proof -
  define m where "m = \<lparr>message_id = 0, work_item_id = ''uploads/1.jpg'', delivery_count = 3,
              visibility_deadline = Some (990::nat)\<rparr>"
  define d where "d = \<lparr>message_id = 0, work_item_id = ''uploads/1.jpg'', delivery_count = 4,
              visibility_deadline = None :: nat option\<rparr>"
  define s3 where "s3 = \<lparr>clock = 660, next_message_id = 1, in_queue = [m], dead_letters = []\<rparr>"
  define s4 where "s4 = \<lparr>clock = 990, next_message_id = 1, in_queue = [], dead_letters = [d]\<rparr>"
  define later where "later =
    [ReceiveMessages 10, Elapse 1000, ObjectWritten ''uploads/2.jpg'', ReceiveMessages 10]"
  have e3: "s3 = fst (queue_run fish_queue
      [ObjectWritten ''uploads/1.jpg'', ReceiveMessages 1, Elapse 330, ReceiveMessages 1,
       Elapse 330, ReceiveMessages 1] empty_queue)"
    by (simp only: three_expired_leases s3_def m_def)
  have e4: "s4 = fst (queue_run fish_queue
      [ObjectWritten ''uploads/1.jpg'', ReceiveMessages 1, Elapse 330, ReceiveMessages 1,
       Elapse 330, ReceiveMessages 1, Elapse 330] empty_queue)"
    by (simp only: four_expired_leases s4_def d_def)
  have in3: "m \<in> set (in_queue s3)"
    by (simp add: s3_def)
  have expired: "lease_expired (clock s3 + 330) m \<and> delivery_count m = 3"
    by (simp add: s3_def m_def lease_expired_def)
  have in4: "d \<in> set (dead_letters s4)"
    by (simp add: s4_def)
  note t3 = dead_letter_after_threshold [OF e3, of 330 later]
  note t4 = dead_letter_after_threshold [OF e4, of 330 later]
  from t3 have "\<forall>m \<in> set (in_queue s3).
             lease_expired (clock s3 + 330) m \<and> delivery_count m = 3 \<longrightarrow>
               expire_lease m \<in> set (dead_letters (fst (queue_step fish_queue (Elapse 330) s3))) \<and>
               message_id m \<notin>
                 message_id ` set (in_queue (fst (queue_step fish_queue (Elapse 330) s3)))"
    by (elim conjE)
  then have "lease_expired (clock s3 + 330) m \<and> delivery_count m = 3 \<longrightarrow>
               expire_lease m \<in> set (dead_letters (fst (queue_step fish_queue (Elapse 330) s3))) \<and>
               message_id m \<notin>
                 message_id ` set (in_queue (fst (queue_step fish_queue (Elapse 330) s3)))"
    using in3 by (rule bspec)
  then have "expire_lease m \<in> set (dead_letters (fst (queue_step fish_queue (Elapse 330) s3))) \<and>
      message_id m \<notin> message_id ` set (in_queue (fst (queue_step fish_queue (Elapse 330) s3)))"
    using expired by (rule mp)
  moreover have "expire_lease m = d" and "message_id m = 0"
    by (simp_all add: expire_lease_def m_def d_def)
  ultimately have a: "d \<in> set (dead_letters (fst (queue_step fish_queue (Elapse 330) s3)))"
    and b: "0 \<notin> message_id ` set (in_queue (fst (queue_step fish_queue (Elapse 330) s3)))"
    by simp_all
  from t4 have "\<forall>m \<in> set (dead_letters s4).
             3 < delivery_count m \<and>
             message_id m \<notin> message_id ` set (in_queue s4) \<and>
             message_id m \<notin> message_id ` set (snd (queue_run fish_queue later s4)) \<and>
             m \<in> set (dead_letters (fst (queue_run fish_queue later s4)))"
    by (elim conjE)
  then have "3 < delivery_count d \<and>
             message_id d \<notin> message_id ` set (in_queue s4) \<and>
             message_id d \<notin> message_id ` set (snd (queue_run fish_queue later s4)) \<and>
             d \<in> set (dead_letters (fst (queue_run fish_queue later s4)))"
    using in4 by (rule bspec)
  then have "message_id d \<notin> message_id ` set (snd (queue_run fish_queue later s4))"
    by (elim conjE)
  moreover have "message_id d = 0"
    by (simp add: d_def)
  ultimately have c: "0 \<notin> message_id ` set (snd (queue_run fish_queue later s4))"
    by simp
  show ?thesis
    using a b c unfolding e3 e4 d_def later_def
    by (intro conjI)
qed

text \<open>
  C5. For every work item, the statuses that a reader sees over any sequence of
  deliveries processed by the workers, from the absent record on, are pending followed
  by one and the same terminal status, completed or error, as often as a record was
  written. So every transition is forward in the order pending, processing, then
  completed or error: none goes back from completed or error to pending or processing,
  and a terminal status is never replaced by the other one. The store performs no check
  of its own (\<open>PutResult\<close> overwrites); the order holds because the workers are the
  only writers, write terminal records only, and classify the same bytes at every
  delivery.
\<close>

theorem worker_writes_only_move_forward:
  assumes "GetStatus store k = NotFound"
  shows "observed_statuses store k (worker_writes classify bytes deliveries) =
           StatusPending #
             replicate (length (worker_writes classify bytes deliveries))
               (terminal_status classify bytes)
       \<and> (terminal_status classify bytes = StatusCompleted \<or>
          terminal_status classify bytes = StatusError)
       \<and> monotone_forward (observed_statuses store k (worker_writes classify bytes deliveries))
       \<and> (\<forall>i. Suc i < length (observed_statuses store k (worker_writes classify bytes deliveries)) \<longrightarrow>
            forward_transition
              (observed_statuses store k (worker_writes classify bytes deliveries) ! i)
              (observed_statuses store k (worker_writes classify bytes deliveries) ! Suc i) \<and>
            (observed_statuses store k (worker_writes classify bytes deliveries) ! i,
             observed_statuses store k (worker_writes classify bytes deliveries) ! Suc i)
              \<notin> {(StatusCompleted, StatusPending), (StatusCompleted, StatusProcessing),
                  (StatusError, StatusPending), (StatusError, StatusProcessing),
                  (StatusCompleted, StatusError), (StatusError, StatusCompleted)})"
proof -
  let ?ws = "worker_writes classify bytes deliveries"
  let ?obs = "observed_statuses store k ?ws"
  have start: "current_status store k = StatusPending"
    using assms by (simp add: current_status_def)
  have obs: "?obs = StatusPending # replicate (length ?ws) (terminal_status classify bytes)"
    using start worker_writes_statuses [of classify bytes deliveries]
    by (simp add: observed_statuses_are_the_written)
  have terminal: "terminal_status classify bytes = StatusCompleted \<or>
          terminal_status classify bytes = StatusError"
    by (cases "classify bytes") (simp_all add: terminal_status_def)
  have mono: "monotone_forward ?obs"
    unfolding obs using terminal_status_stage by (rule monotone_forward_pending_then)
  have pairs: "\<forall>i. Suc i < length ?obs \<longrightarrow>
      forward_transition (?obs ! i) (?obs ! Suc i) \<and>
      (?obs ! i, ?obs ! Suc i)
        \<notin> {(StatusCompleted, StatusPending), (StatusCompleted, StatusProcessing),
            (StatusError, StatusPending), (StatusError, StatusProcessing),
            (StatusCompleted, StatusError), (StatusError, StatusCompleted)}"
  proof (intro allI impI)
    fix i assume "Suc i < length ?obs"
    then have f: "forward_transition (?obs ! i) (?obs ! Suc i)"
      using mono monotone_forward_pairs [of ?obs] by blast
    from f forward_transition_excludes [OF f]
    show "forward_transition (?obs ! i) (?obs ! Suc i) \<and>
      (?obs ! i, ?obs ! Suc i)
        \<notin> {(StatusCompleted, StatusPending), (StatusCompleted, StatusProcessing),
            (StatusError, StatusPending), (StatusError, StatusProcessing),
            (StatusCompleted, StatusError), (StatusError, StatusCompleted)}"
      by (rule conjI)
  qed
  show ?thesis
    by (intro conjI) (rule obs terminal mono pairs)+
qed

text \<open>
  The theorem at an object that is classified, with a first delivery whose fetch fails,
  and at an object that cannot be decoded.
\<close>

theorem worker_writes_only_move_forward_witness:
  "observed_statuses Map.empty ''uploads/1.jpg''
      (worker_writes a_classifier ''jpeg bytes'' [(False, 1), (True, 2), (True, 3)]) =
     [StatusPending, StatusCompleted, StatusCompleted]
   \<and> observed_statuses Map.empty ''uploads/2.jpg''
      (worker_writes a_classifier ''corrupt'' [(True, 1), (True, 2)]) =
     [StatusPending, StatusError, StatusError]
   \<and> monotone_forward (observed_statuses Map.empty ''uploads/1.jpg''
      (worker_writes a_classifier ''jpeg bytes'' [(False, 1), (True, 2), (True, 3)]))
   \<and> forward_transition StatusPending StatusCompleted"
proof -
  have absent: "\<And>k. GetStatus Map.empty k = NotFound"
    by (simp add: GetStatus_def)
  note ok = worker_writes_only_move_forward
    [OF absent, of "''uploads/1.jpg''" a_classifier "''jpeg bytes''"
       "[(False, 1), (True, 2), (True, 3)]"]
  note bad = worker_writes_only_move_forward
    [OF absent, of "''uploads/2.jpg''" a_classifier "''corrupt''" "[(True, 1), (True, 2)]"]
  have ws: "worker_writes a_classifier ''jpeg bytes'' [(False, 1), (True, 2), (True, 3)] =
      [\<lparr>record_status = StatusCompleted, payload = Some ''Sparus aurata'', error_detail = None,
        updated_at = 2\<rparr>,
       \<lparr>record_status = StatusCompleted, payload = Some ''Sparus aurata'', error_detail = None,
        updated_at = 3\<rparr>]"
    by (simp add: process_delivery_def a_classifier_def)
  have ws': "worker_writes a_classifier ''corrupt'' [(True, 1), (True, 2)] =
      [\<lparr>record_status = StatusError, payload = None,
        error_detail = Some ''cannot decode image'', updated_at = 1\<rparr>,
       \<lparr>record_status = StatusError, payload = None,
        error_detail = Some ''cannot decode image'', updated_at = 2\<rparr>]"
    by (simp add: process_delivery_def a_classifier_def)
  have a: "observed_statuses Map.empty ''uploads/1.jpg''
      (worker_writes a_classifier ''jpeg bytes'' [(False, 1), (True, 2), (True, 3)]) =
     [StatusPending, StatusCompleted, StatusCompleted]"
    using ok [THEN conjunct1]
    by (simp only: ws) (simp add: terminal_status_def a_classifier_def)
  have b: "observed_statuses Map.empty ''uploads/2.jpg''
      (worker_writes a_classifier ''corrupt'' [(True, 1), (True, 2)]) =
     [StatusPending, StatusError, StatusError]"
    using bad [THEN conjunct1]
    by (simp only: ws') (simp add: terminal_status_def a_classifier_def)
  have c: "monotone_forward (observed_statuses Map.empty ''uploads/1.jpg''
      (worker_writes a_classifier ''jpeg bytes'' [(False, 1), (True, 2), (True, 3)]))"
    using ok by (elim conjE)
  have "Suc 0 < length (observed_statuses Map.empty ''uploads/1.jpg''
      (worker_writes a_classifier ''jpeg bytes'' [(False, 1), (True, 2), (True, 3)]))"
    by (simp only: a) simp
  with ok have "forward_transition
      (observed_statuses Map.empty ''uploads/1.jpg''
        (worker_writes a_classifier ''jpeg bytes'' [(False, 1), (True, 2), (True, 3)]) ! 0)
      (observed_statuses Map.empty ''uploads/1.jpg''
        (worker_writes a_classifier ''jpeg bytes'' [(False, 1), (True, 2), (True, 3)]) ! Suc 0)"
    by blast
  then have d: "forward_transition StatusPending StatusCompleted"
    by (simp only: a) simp
  show ?thesis
    by (intro conjI) (rule a b c d)+
qed

text \<open>
  C6. Writing the same record twice to a key leaves \<open>GetStatus\<close> returning that
  record, as after the first write, and leaves the whole store as the first write left
  it; a second write of another record replaces the first (the last writer wins). This
  holds for every record, a completed one in particular.
\<close>

theorem PutResult_same_record_twice:
  "GetStatus (PutResult k r (PutResult k r store)) k = Found r
   \<and> GetStatus (PutResult k r (PutResult k r store)) k = GetStatus (PutResult k r store) k
   \<and> PutResult k r (PutResult k r store) = PutResult k r store
   \<and> GetStatus (PutResult k r' (PutResult k r store)) k = Found r'"
  by (simp add: GetStatus_def PutResult_def)

text \<open>
  The theorem at a completed record written twice to an empty store.
\<close>

theorem PutResult_same_record_twice_witness:
  "GetStatus (PutResult ''uploads/1.jpg'' a_completed_record
      (PutResult ''uploads/1.jpg'' a_completed_record Map.empty)) ''uploads/1.jpg'' =
     Found a_completed_record
   \<and> GetStatus (PutResult ''uploads/1.jpg'' a_completed_record
      (PutResult ''uploads/1.jpg'' a_processing_record Map.empty)) ''uploads/1.jpg'' =
     Found a_completed_record"
proof -
  note twice = PutResult_same_record_twice
      [of "''uploads/1.jpg''" a_completed_record Map.empty a_completed_record]
  note last = PutResult_same_record_twice
      [of "''uploads/1.jpg''" a_processing_record Map.empty a_completed_record]
  from twice have a: "GetStatus (PutResult ''uploads/1.jpg'' a_completed_record
      (PutResult ''uploads/1.jpg'' a_completed_record Map.empty)) ''uploads/1.jpg'' =
     Found a_completed_record"
    by (rule conjunct1)
  from last have b: "GetStatus (PutResult ''uploads/1.jpg'' a_completed_record
      (PutResult ''uploads/1.jpg'' a_processing_record Map.empty)) ''uploads/1.jpg'' =
     Found a_completed_record"
    by (elim conjE)
  from a b show ?thesis by (rule conjI)
qed

text \<open>
  C7. Every kind of successful object write to the uploads bucket matches the bucket
  notification's event pattern and is allowed by the queue policy, so its event is sent
  to the main queue, to at least one queue that is, and the write adds a message for the
  object to the work queue.
\<close>

theorem object_write_reaches_the_work_queue:
  "object_write_messages bucket_notification s3_to_sqs_policy (BucketArn ''fish_uploads'') w =
     [QueueArn ''fish_queue'']
   \<and> 1 \<le> length (object_write_messages bucket_notification s3_to_sqs_policy
                  (BucketArn ''fish_uploads'') w)
   \<and> in_queue (upload_object (BucketArn ''fish_uploads'') w key s) =
       in_queue s @
         [\<lparr>message_id = next_message_id s, work_item_id = key, delivery_count = 1,
           visibility_deadline = None\<rparr>]
   \<and> 1 \<le> length (filter (\<lambda>m. work_item_id m = key \<and> next_message_id s \<le> message_id m)
                  (in_queue (upload_object (BucketArn ''fish_uploads'') w key s)))"
proof -
  have route: "object_write_messages bucket_notification s3_to_sqs_policy
      (BucketArn ''fish_uploads'') w = [QueueArn ''fish_queue'']"
    by (cases w)
      (simp_all add: object_write_messages_def bucket_notification_def s3_to_sqs_policy_def
        policy_allows_def event_matches_def event_name_def)
  have queue: "in_queue (upload_object (BucketArn ''fish_uploads'') w key s) =
       in_queue s @
         [\<lparr>message_id = next_message_id s, work_item_id = key, delivery_count = 1,
           visibility_deadline = None\<rparr>]"
    by (simp add: upload_object_def route)
  show ?thesis
    by (simp add: route queue)
qed

text \<open>
  The theorem at the write a pre-signed POST makes, into an empty queue.
\<close>

theorem object_write_reaches_the_work_queue_witness:
  "object_write_messages bucket_notification s3_to_sqs_policy (BucketArn ''fish_uploads'')
      WritePost = [QueueArn ''fish_queue'']
   \<and> in_queue (upload_object (BucketArn ''fish_uploads'') WritePost ''uploads/1.jpg''
        empty_queue) =
       [\<lparr>message_id = 0, work_item_id = ''uploads/1.jpg'', delivery_count = 1,
         visibility_deadline = None\<rparr>]"
  using object_write_reaches_the_work_queue [of WritePost "''uploads/1.jpg''" empty_queue]
  by (simp add: empty_queue_def)

end
